theory Spec2Isabelle
  imports Complex_Main
begin

section \<open>Python numbers\<close>

text \<open>
  \<open>BankAccount\<close> accepts every object for which \<open>isinstance(x, (int, float))\<close> holds:
  unbounded integers, booleans (a subclass of \<open>int\<close>) and IEEE-754 binary64 floats.
  The Streamlit forms pass floats (\<open>st.number_input\<close> with a float \<open>min_value\<close>), so
  the float path is the one the application really runs.

  A finite binary64 value is an integer multiple of \<open>2 ^ -1074\<close> with at most 53
  significant bits and magnitude below \<open>2 ^ 1024\<close>. \<open>Finite n\<close> stands for the value
  \<open>n * 2 ^ -1074\<close>; \<open>Finite 0\<close> is \<open>+0.0\<close> and \<open>NegZero\<close> is \<open>-0.0\<close>.
\<close>

function bit_length :: "int \<Rightarrow> nat" where
  "bit_length n = (if n \<le> 0 then 0 else Suc (bit_length (n div 2)))"
  by pat_completeness auto
termination
  by (relation "measure nat") auto

declare bit_length.simps [simp del]

definition fscale :: int where
  "fscale = 2 ^ 1074"

definition fmax :: int where
  "fmax = 2 ^ 1024 * fscale"

datatype pyfloat = Finite int | NegZero | PosInf | NegInf | NaN

definition round_half_even :: "int \<Rightarrow> nat \<Rightarrow> int" where
  "round_half_even a k =
     (let q = a div 2 ^ k; r = a mod 2 ^ k
      in if 2 * r < 2 ^ k \<or> (2 * r = 2 ^ k \<and> even q) then q else q + 1)"

definition round_mag :: "int \<Rightarrow> int" where
  "round_mag a = (let k = bit_length a - 53 in round_half_even a k * 2 ^ k)"

definition fl_round :: "int \<Rightarrow> pyfloat" where
  "fl_round n =
     (let a = round_mag \<bar>n\<bar>
      in if fmax \<le> a then (if n < 0 then NegInf else PosInf)
         else Finite (if n < 0 then - a else a))"

definition is_double :: "pyfloat \<Rightarrow> bool" where
  "is_double f =
     (case f of
        Finite n \<Rightarrow> 2 ^ (bit_length \<bar>n\<bar> - 53) dvd n \<and> \<bar>n\<bar> < fmax
      | _ \<Rightarrow> True)"

text \<open>
  The float of a whole number that has at most 53 significant bits: \<open>whole 1\<close> is
  \<open>1.0\<close>, \<open>whole 9007199254740992\<close> is \<open>2.0 ** 53\<close>.
\<close>

definition whole :: "int \<Rightarrow> pyfloat" where
  "whole i = Finite (i * fscale)"

subsection \<open>Float arithmetic\<close>

text \<open>
  IEEE-754 addition under round-to-nearest, ties-to-even (the only mode CPython runs
  in): the exact sum, rounded. The exact sum of two opposite values is \<open>+0.0\<close>.
  Subtraction is the addition of the negated operand.
\<close>

fun fl_neg :: "pyfloat \<Rightarrow> pyfloat" where
  "fl_neg (Finite n) = (if n = 0 then NegZero else Finite (- n))"
| "fl_neg NegZero = Finite 0"
| "fl_neg PosInf = NegInf"
| "fl_neg NegInf = PosInf"
| "fl_neg NaN = NaN"

fun fl_add :: "pyfloat \<Rightarrow> pyfloat \<Rightarrow> pyfloat" where
  "fl_add NaN y = NaN"
| "fl_add x NaN = NaN"
| "fl_add PosInf NegInf = NaN"
| "fl_add NegInf PosInf = NaN"
| "fl_add PosInf y = PosInf"
| "fl_add x PosInf = PosInf"
| "fl_add NegInf y = NegInf"
| "fl_add x NegInf = NegInf"
| "fl_add NegZero NegZero = NegZero"
| "fl_add NegZero (Finite b) = Finite b"
| "fl_add (Finite a) NegZero = Finite a"
| "fl_add (Finite a) (Finite b) = fl_round (a + b)"

definition fl_sub :: "pyfloat \<Rightarrow> pyfloat \<Rightarrow> pyfloat" where
  "fl_sub x y = fl_add x (fl_neg y)"

subsection \<open>Numbers, objects and exceptions\<close>

datatype number = NInt int | NBool bool | NFloat pyfloat

text \<open>An argument can be any object; \<open>PStr\<close> and \<open>PNone\<close> stand for the non-numbers.\<close>

datatype pyval = Num number | PStr string | PNone

datatype error = TypeError string | ValueError string | OverflowError string

fun error_text :: "error \<Rightarrow> string" where
  "error_text (TypeError m) = m"
| "error_text (ValueError m) = m"
| "error_text (OverflowError m) = m"

text \<open>
  The class of an exception is what an \<open>except\<close> clause tells errors apart by;
  the code raises the built-in classes only. \<open>raised\<close> is the exception a call
  ended with, if any.
\<close>

datatype exception_class = TypeErrorClass | ValueErrorClass | OverflowErrorClass

fun error_class :: "error \<Rightarrow> exception_class" where
  "error_class (TypeError m) = TypeErrorClass"
| "error_class (ValueError m) = ValueErrorClass"
| "error_class (OverflowError m) = OverflowErrorClass"

fun raised :: "error + 'a \<Rightarrow> error option" where
  "raised (Inl e) = Some e"
| "raised (Inr x) = None"

fun int_value :: "number \<Rightarrow> int option" where
  "int_value (NInt i) = Some i"
| "int_value (NBool b) = Some (if b then 1 else 0)"
| "int_value (NFloat f) = None"

text \<open>\<open>float(i)\<close>: correctly rounded, and an OverflowError beyond the float range.\<close>

definition int_to_float :: "int \<Rightarrow> error + pyfloat" where
  "int_to_float i =
     (case fl_round (i * fscale) of
        PosInf \<Rightarrow> Inl (OverflowError ''int too large to convert to float'')
      | NegInf \<Rightarrow> Inl (OverflowError ''int too large to convert to float'')
      | f \<Rightarrow> Inr f)"

fun to_float :: "number \<Rightarrow> error + pyfloat" where
  "to_float (NInt i) = int_to_float i"
| "to_float (NBool b) = int_to_float (if b then 1 else 0)"
| "to_float (NFloat f) = Inr f"

text \<open>
  \<open>x + y\<close>, \<open>x - y\<close> and \<open>-x\<close>. Two integers (or booleans) give an exact integer.
  As soon as one operand is a float the other is converted to float first.
\<close>

definition float_op ::
  "(pyfloat \<Rightarrow> pyfloat \<Rightarrow> pyfloat) \<Rightarrow> number \<Rightarrow> number \<Rightarrow> error + number" where
  "float_op f x y =
     (case to_float x of
        Inl e \<Rightarrow> Inl e
      | Inr a \<Rightarrow> (case to_float y of Inl e \<Rightarrow> Inl e | Inr b \<Rightarrow> Inr (NFloat (f a b))))"

definition num_add :: "number \<Rightarrow> number \<Rightarrow> error + number" where
  "num_add x y =
     (case (int_value x, int_value y) of
        (Some i, Some j) \<Rightarrow> Inr (NInt (i + j))
      | _ \<Rightarrow> float_op fl_add x y)"

definition num_sub :: "number \<Rightarrow> number \<Rightarrow> error + number" where
  "num_sub x y =
     (case (int_value x, int_value y) of
        (Some i, Some j) \<Rightarrow> Inr (NInt (i - j))
      | _ \<Rightarrow> float_op fl_sub x y)"

fun num_neg :: "number \<Rightarrow> number" where
  "num_neg (NInt i) = NInt (- i)"
| "num_neg (NBool b) = NInt (if b then - 1 else 0)"
| "num_neg (NFloat f) = NFloat (fl_neg f)"

text \<open>
  Comparisons are exact, also between an integer and a float (CPython compares the
  mathematical values), and every comparison with NaN is false. \<open>ext_of\<close> gives the
  value in units of \<open>2 ^ -1074\<close>.
\<close>

datatype ext = ENaN | ENegInf | EFin int | EPosInf

fun ext_of :: "number \<Rightarrow> ext" where
  "ext_of (NInt i) = EFin (i * fscale)"
| "ext_of (NBool b) = EFin (if b then fscale else 0)"
| "ext_of (NFloat (Finite n)) = EFin n"
| "ext_of (NFloat NegZero) = EFin 0"
| "ext_of (NFloat PosInf) = EPosInf"
| "ext_of (NFloat NegInf) = ENegInf"
| "ext_of (NFloat NaN) = ENaN"

fun ext_lt :: "ext \<Rightarrow> ext \<Rightarrow> bool" where
  "ext_lt (EFin a) (EFin b) = (a < b)"
| "ext_lt ENegInf (EFin b) = True"
| "ext_lt ENegInf EPosInf = True"
| "ext_lt (EFin a) EPosInf = True"
| "ext_lt x y = False"

fun ext_le :: "ext \<Rightarrow> ext \<Rightarrow> bool" where
  "ext_le ENaN y = False"
| "ext_le x ENaN = False"
| "ext_le (EFin a) (EFin b) = (a \<le> b)"
| "ext_le ENegInf y = True"
| "ext_le x EPosInf = True"
| "ext_le x y = False"

definition num_lt :: "number \<Rightarrow> number \<Rightarrow> bool" where
  "num_lt x y = ext_lt (ext_of x) (ext_of y)"

definition num_le :: "number \<Rightarrow> number \<Rightarrow> bool" where
  "num_le x y = ext_le (ext_of x) (ext_of y)"

definition num_gt :: "number \<Rightarrow> number \<Rightarrow> bool" where
  "num_gt x y = num_lt y x"

text \<open>The values Python can really hold: a float is a binary64 value.\<close>

fun wf_number :: "number \<Rightarrow> bool" where
  "wf_number (NFloat f) = is_double f"
| "wf_number x = True"

fun wf_pyval :: "pyval \<Rightarrow> bool" where
  "wf_pyval (Num x) = wf_number x"
| "wf_pyval v = True"

text \<open>The mathematical value of a finite number; none for an infinity or NaN.\<close>

fun exact_value :: "number \<Rightarrow> rat option" where
  "exact_value (NInt i) = Some (of_int i)"
| "exact_value (NBool b) = Some (if b then 1 else 0)"
| "exact_value (NFloat (Finite n)) = Some (of_int n / of_int fscale)"
| "exact_value (NFloat NegZero) = Some 0"
| "exact_value (NFloat f) = None"

section \<open>String formatting\<close>

definition digit :: "int \<Rightarrow> char" where
  "digit d = ''0123456789'' ! nat d"

function digits :: "int \<Rightarrow> string" where
  "digits n = (if n < 10 then [digit n] else digits (n div 10) @ [digit (n mod 10)])"
  by pat_completeness auto
termination
  by (relation "measure nat") auto

declare digits.simps [simp del]

text \<open>
  The format spec \<open>.2f\<close>. For a float: the exact binary value rounded to hundredths,
  ties to even, at least one digit before the point, the sign kept also when the
  digits are all zero. An integer or boolean is converted to float first, which
  raises OverflowError when it is out of the float range.
\<close>

definition fixed2 :: "int \<Rightarrow> string" where
  "fixed2 h = digits (h div 100) @ ''.'' @ [digit (h mod 100 div 10), digit (h mod 10)]"

fun format_float_2f :: "pyfloat \<Rightarrow> string" where
  "format_float_2f (Finite n) =
     (if n < 0 then ''-'' else []) @ fixed2 (round_half_even (\<bar>n\<bar> * 100) 1074)"
| "format_float_2f NegZero = ''-0.00''"
| "format_float_2f PosInf = ''inf''"
| "format_float_2f NegInf = ''-inf''"
| "format_float_2f NaN = ''nan''"

definition format_2f :: "number \<Rightarrow> error + string" where
  "format_2f x = (case to_float x of Inl e \<Rightarrow> Inl e | Inr f \<Rightarrow> Inr (format_float_2f f))"

text \<open>Alignment to a minimum width: \<open>:<10\<close> and \<open>:>8\<close>. A longer text is kept whole.\<close>

definition ljust :: "nat \<Rightarrow> string \<Rightarrow> string" where
  "ljust w s = s @ replicate (w - length s) CHR '' ''"

definition rjust :: "nat \<Rightarrow> string \<Rightarrow> string" where
  "rjust w s = replicate (w - length s) CHR '' '' @ s"

text \<open>
  \<open>datetime.now()\<close> and \<open>date.today()\<close> read the clock: the readings are arguments
  of the model. \<open>%Y\<close> prints the year as the C library does, in plain decimal (four
  digits from the year 1000 on); the other fields are two digits, zero-padded.
\<close>

record datetime =
  year :: nat
  month :: nat
  day :: nat
  hour :: nat
  minute :: nat
  second :: nat

definition pad2 :: "nat \<Rightarrow> string" where
  "pad2 n = (if n < 10 then ''0'' else []) @ digits (int n)"

definition strftime :: "datetime \<Rightarrow> string" where
  "strftime t =
     digits (int (year t)) @ ''-'' @ pad2 (month t) @ ''-'' @ pad2 (day t) @ '' '' @
     pad2 (hour t) @ '':'' @ pad2 (minute t) @ '':'' @ pad2 (second t)"

section \<open>BankAccount\<close>

text \<open>
  A transaction is the dict \<open>{"timestamp": ..., "type": ..., "amount": ...}\<close>.
  The account number (\<open>uuid.uuid4()\<close>) and the creation date are generated at
  construction: the generated values are arguments of the model.
\<close>

record transaction =
  timestamp :: datetime
  type :: string
  amount :: number

record date =
  date_year :: nat
  date_month :: nat
  date_day :: nat

record account =
  account_number :: string
  account_holder_name :: string
  balance :: number
  account_type :: string
  transactions :: "transaction list"
  creation_date :: date

definition BankAccount_init ::
  "string \<Rightarrow> pyval \<Rightarrow> string \<Rightarrow> string \<Rightarrow> date \<Rightarrow> error + account" where
  "BankAccount_init holder initial_balance acc_type uuid today =
     (case initial_balance of
        Num b \<Rightarrow>
          if num_lt b (NInt 0) then Inl (ValueError ''Initial balance cannot be negative.'')
          else Inr \<lparr>account_number = uuid, account_holder_name = holder, balance = b,
                    account_type = acc_type, transactions = [], creation_date = today\<rparr>
      | _ \<Rightarrow> Inl (TypeError ''Initial balance must be a number.''))"

definition add_transaction :: "account \<Rightarrow> string \<Rightarrow> number \<Rightarrow> datetime \<Rightarrow> account" where
  "add_transaction self transaction_type amt now =
     self\<lparr>transactions :=
       transactions self @ [\<lparr>timestamp = now, type = transaction_type, amount = amt\<rparr>]\<rparr>"

text \<open>
  A method returns its result, or the exception it raises, together with the
  account as the call leaves it: an exception raised after an assignment leaves
  the assignment in place.
\<close>

definition deposit :: "account \<Rightarrow> pyval \<Rightarrow> datetime \<Rightarrow> (error + string) \<times> account" where
  "deposit self amt now =
     (case amt of
        Num a \<Rightarrow>
          if num_le a (NInt 0) then (Inl (ValueError ''Deposit amount must be positive.''), self)
          else (case num_add (balance self) a of
                  Inl e \<Rightarrow> (Inl e, self)
                | Inr b \<Rightarrow>
                    let self' = add_transaction (self\<lparr>balance := b\<rparr>) ''Deposit'' a now
                    in (case format_2f a of
                          Inl e \<Rightarrow> (Inl e, self')
                        | Inr s1 \<Rightarrow>
                            (case format_2f (balance self') of
                               Inl e \<Rightarrow> (Inl e, self')
                             | Inr s2 \<Rightarrow>
                                 (Inr (''Deposited $'' @ s1 @ ''. New balance: $'' @ s2), self'))))
      | _ \<Rightarrow> (Inl (TypeError ''Deposit amount must be a number.''), self))"

definition withdraw :: "account \<Rightarrow> pyval \<Rightarrow> datetime \<Rightarrow> (error + string) \<times> account" where
  "withdraw self amt now =
     (case amt of
        Num a \<Rightarrow>
          if num_le a (NInt 0) then (Inl (ValueError ''Withdrawal amount must be positive.''), self)
          else if num_gt a (balance self) then (Inl (ValueError ''Insufficient funds.''), self)
          else (case num_sub (balance self) a of
                  Inl e \<Rightarrow> (Inl e, self)
                | Inr b \<Rightarrow>
                    let self' = add_transaction (self\<lparr>balance := b\<rparr>) ''Withdrawal'' (num_neg a) now
                    in (case format_2f a of
                          Inl e \<Rightarrow> (Inl e, self')
                        | Inr s1 \<Rightarrow>
                            (case format_2f (balance self') of
                               Inl e \<Rightarrow> (Inl e, self')
                             | Inr s2 \<Rightarrow>
                                 (Inr (''Withdrew $'' @ s1 @ ''. New balance: $'' @ s2), self'))))
      | _ \<Rightarrow> (Inl (TypeError ''Withdrawal amount must be a number.''), self))"


definition get_transaction_history :: "account \<Rightarrow> transaction list" where
  "get_transaction_history self = transactions self"

text \<open>One pass of the loop of \<open>format_transaction_history\<close>, and the loop.\<close>

definition history_line :: "transaction \<Rightarrow> error + string" where
  "history_line t =
     (case format_2f (amount t) of
        Inl e \<Rightarrow> Inl e
      | Inr s \<Rightarrow>
          Inr (strftime (timestamp t) @ '' - '' @ ljust 10 (type t) @ '': $'' @ rjust 8 s @
               ''\<newline>''))"

fun history_loop :: "string \<Rightarrow> transaction list \<Rightarrow> error + string" where
  "history_loop history_text [] = Inr history_text"
| "history_loop history_text (t # ts) =
     (case history_line t of
        Inl e \<Rightarrow> Inl e
      | Inr l \<Rightarrow> history_loop (history_text @ l) ts)"

definition border :: string where
  "border = replicate 30 CHR ''-''"

definition format_transaction_history :: "account \<Rightarrow> error + string" where
  "format_transaction_history self =
     (if transactions self = [] then Inr ''No transactions yet.''
      else (case history_loop
                   (border @ ''\<newline>Transaction History:\<newline>'' @ border @ ''\<newline>'')
                   (transactions self) of
              Inl e \<Rightarrow> Inl e
            | Inr history_text \<Rightarrow> Inr (history_text @ border)))"

section \<open>BankingSystem\<close>

text \<open>
  \<open>accounts\<close> is a dict from account number to account object. No claim depends on
  its iteration order, so it is a map. An account object is reached only through
  the dict, so the map holds the account's state itself.
\<close>

record banking_system =
  accounts :: "string \<rightharpoonup> account"

definition BankingSystem_init :: banking_system where
  "BankingSystem_init = \<lparr>accounts = Map.empty\<rparr>"

text \<open>\<open>create_account\<close> catches TypeError and ValueError only.\<close>

definition create_account ::
  "banking_system \<Rightarrow> string \<Rightarrow> pyval \<Rightarrow> string \<Rightarrow> string \<Rightarrow> date
     \<Rightarrow> (error + string) \<times> banking_system" where
  "create_account self holder initial_balance acc_type uuid today =
     (case BankAccount_init holder initial_balance acc_type uuid today of
        Inr acct \<Rightarrow>
          (Inr (''Account created successfully. Account number: '' @ account_number acct),
           self\<lparr>accounts := (accounts self)(account_number acct \<mapsto> acct)\<rparr>)
      | Inl (TypeError m) \<Rightarrow> (Inr (''Account creation failed: '' @ m), self)
      | Inl (ValueError m) \<Rightarrow> (Inr (''Account creation failed: '' @ m), self)
      | Inl e \<Rightarrow> (Inl e, self))"

definition get_account :: "banking_system \<Rightarrow> string \<Rightarrow> account option \<times> banking_system" where
  "get_account self number = (accounts self number, self)"

definition delete_account :: "banking_system \<Rightarrow> string \<Rightarrow> string \<times> banking_system" where
  "delete_account self number =
     (if number \<in> dom (accounts self)
      then (''Account '' @ number @ '' deleted successfully.'',
            self\<lparr>accounts := (accounts self)(number := None)\<rparr>)
      else (''Account '' @ number @ '' not found.'', self))"

section \<open>Call sequences\<close>

text \<open>
  A caller runs deposits and withdrawals one after the other on the same account
  object; a call that raises leaves the account as \<open>deposit\<close> and \<open>withdraw\<close>
  say, and the caller goes on.
\<close>

datatype account_call = Deposit pyval datetime | Withdraw pyval datetime

fun account_step :: "account \<Rightarrow> account_call \<Rightarrow> (error + string) \<times> account" where
  "account_step a (Deposit v t) = deposit a v t"
| "account_step a (Withdraw v t) = withdraw a v t"

fun run_account :: "account \<Rightarrow> account_call list \<Rightarrow> account" where
  "run_account a [] = a"
| "run_account a (c # cs) = run_account (snd (account_step a c)) cs"

fun call_arg :: "account_call \<Rightarrow> pyval" where
  "call_arg (Deposit v t) = v"
| "call_arg (Withdraw v t) = v"

text \<open>
  The forms reach an account through the ledger: \<open>get_account\<close>, then the method on
  the object found, which is the object the dict holds.
\<close>

definition on_account ::
  "banking_system \<Rightarrow> string \<Rightarrow> account_call \<Rightarrow> banking_system" where
  "on_account self number c =
     (case fst (get_account self number) of
        None \<Rightarrow> self
      | Some a \<Rightarrow> self\<lparr>accounts := (accounts self)(number \<mapsto> snd (account_step a c))\<rparr>)"

datatype ledger_call =
    Create string pyval string string date
  | Lookup string
  | Delete string
  | OnAccount string account_call

fun ledger_step :: "banking_system \<Rightarrow> ledger_call \<Rightarrow> banking_system" where
  "ledger_step s (Create holder initial_balance acc_type uuid today) =
     snd (create_account s holder initial_balance acc_type uuid today)"
| "ledger_step s (Lookup number) = snd (get_account s number)"
| "ledger_step s (Delete number) = snd (delete_account s number)"
| "ledger_step s (OnAccount number c) = on_account s number c"

fun run_ledger :: "banking_system \<Rightarrow> ledger_call list \<Rightarrow> banking_system" where
  "run_ledger s [] = s"
| "run_ledger s (c # cs) = run_ledger (ledger_step s c) cs"

text \<open>A call inserts the identifier \<open>k\<close> when it is a creation that succeeds with it.\<close>

fun inserts :: "ledger_call \<Rightarrow> string \<Rightarrow> bool" where
  "inserts (Create holder initial_balance acc_type uuid today) k =
     (uuid = k \<and>
      (case BankAccount_init holder initial_balance acc_type uuid today of
         Inr a \<Rightarrow> True
       | Inl e \<Rightarrow> False))"
| "inserts c k = False"

section \<open>Notions the properties are stated with\<close>

text \<open>\<open>isinstance(v, (int, float))\<close>.\<close>

fun is_number :: "pyval \<Rightarrow> bool" where
  "is_number (Num x) = True"
| "is_number v = False"

fun is_integer :: "number \<Rightarrow> bool" where
  "is_integer (NFloat f) = False"
| "is_integer x = True"

fun integer_arg :: "pyval \<Rightarrow> bool" where
  "integer_arg (Num x) = is_integer x"
| "integer_arg v = True"

text \<open>Python's left-to-right sum \<open>start + x1 + ... + xn\<close>.\<close>

fun add_all :: "number \<Rightarrow> number list \<Rightarrow> error + number" where
  "add_all acc [] = Inr acc"
| "add_all acc (x # xs) = (case num_add acc x of Inl e \<Rightarrow> Inl e | Inr s \<Rightarrow> add_all s xs)"

text \<open>The mathematical sum of a start value and a list of numbers, all finite.\<close>

fun exact_total :: "number \<Rightarrow> number list \<Rightarrow> rat option" where
  "exact_total start [] = exact_value start"
| "exact_total start (x # xs) =
     (case (exact_value x, exact_total start xs) of
        (Some v, Some s) \<Rightarrow> Some (v + s)
      | _ \<Rightarrow> None)"

text \<open>
  A number that \<open>.2f\<close> prints with digits: a finite float, or an integer that
  converts to a float.
\<close>

fun finite_float :: "pyfloat \<Rightarrow> bool" where
  "finite_float (Finite n) = True"
| "finite_float NegZero = True"
| "finite_float f = False"

definition has_2f :: "number \<Rightarrow> bool" where
  "has_2f x = (case to_float x of Inr f \<Rightarrow> finite_float f | Inl e \<Rightarrow> False)"

definition is_digit :: "char \<Rightarrow> bool" where
  "is_digit c = (c \<in> set ''0123456789'')"

text \<open>A text of the shape \<open>d...d.dd\<close>, after an optional minus sign.\<close>

definition two_decimals :: "string \<Rightarrow> bool" where
  "two_decimals s =
     (let t = (if s \<noteq> [] \<and> hd s = CHR ''-'' then tl s else s); n = length t
      in 4 \<le> n \<and> t ! (n - 3) = CHR ''.'' \<and>
         list_all is_digit (take (n - 3) t) \<and> list_all is_digit (drop (n - 2) t))"

text \<open>A text of the shape \<open>YYYY-MM-DD HH:MM:SS\<close>.\<close>

definition timestamp_shape :: "string \<Rightarrow> bool" where
  "timestamp_shape s =
     (length s = 19 \<and> s ! 4 = CHR ''-'' \<and> s ! 7 = CHR ''-'' \<and> s ! 10 = CHR '' '' \<and>
      s ! 13 = CHR '':'' \<and> s ! 16 = CHR '':'' \<and>
      list_all (\<lambda>i. is_digit (s ! i)) [0, 1, 2, 3, 5, 6, 8, 9, 11, 12, 14, 15, 17, 18])"

text \<open>
  A text \<open>s\<close> set at the left, or at the right, of a field of at least \<open>w\<close>
  characters that is filled up with spaces.
\<close>

definition left_aligned :: "nat \<Rightarrow> string \<Rightarrow> string \<Rightarrow> bool" where
  "left_aligned w s field =
     (length field = max w (length s) \<and> take (length s) field = s \<and>
      list_all (\<lambda>c. c = CHR '' '') (drop (length s) field))"

definition right_aligned :: "nat \<Rightarrow> string \<Rightarrow> string \<Rightarrow> bool" where
  "right_aligned w s field =
     (length field = max w (length s) \<and> drop (length field - length s) field = s \<and>
      list_all (\<lambda>c. c = CHR '' '') (take (length field - length s) field))"

text \<open>
  The amount of a transaction as \<open>.2f\<close> prints it, and the line of the history
  that shows the transaction.
\<close>

definition amount_text :: "transaction \<Rightarrow> string" where
  "amount_text t = (case format_2f (amount t) of Inr s \<Rightarrow> s | Inl e \<Rightarrow> [])"

definition entry :: "transaction \<Rightarrow> string" where
  "entry t =
     strftime (timestamp t) @ '' - '' @ ljust 10 (type t) @ '': $'' @
     rjust 8 (amount_text t) @ ''\<newline>''"

text \<open>
  The readings \<open>datetime.now()\<close> gives in the years 1000 to 9999.
\<close>

definition wf_datetime :: "datetime \<Rightarrow> bool" where
  "wf_datetime t =
     (1000 \<le> year t \<and> year t \<le> 9999 \<and> 1 \<le> month t \<and> month t \<le> 12 \<and>
      1 \<le> day t \<and> day t \<le> 31 \<and> hour t < 24 \<and> minute t < 60 \<and> second t < 60)"

fun wf_call :: "account_call \<Rightarrow> bool" where
  "wf_call c = wf_pyval (call_arg c)"

text \<open>
  What every call keeps true of an account constructed with the balance \<open>start\<close>,
  and what it keeps true when only integers are involved.
\<close>

definition account_inv :: "number \<Rightarrow> account \<Rightarrow> bool" where
  "account_inv start a =
     (wf_number (balance a) \<and> \<not> num_lt (balance a) (NInt 0) \<and>
      add_all start (map amount (transactions a)) = Inr (balance a))"

definition integer_inv :: "number \<Rightarrow> account \<Rightarrow> bool" where
  "integer_inv start a =
     (is_integer (balance a) \<and>
      (\<exists>r. exact_value (balance a) = Some r \<and>
           exact_total start (map amount (transactions a)) = Some r))"

section \<open>Concrete inputs\<close>

definition ex_now :: datetime where
  "ex_now = \<lparr>year = 2024, month = 3, day = 9, hour = 14, minute = 5, second = 7\<rparr>"

definition ex_today :: date where
  "ex_today = \<lparr>date_year = 2024, date_month = 3, date_day = 9\<rparr>"

text \<open>The account \<open>BankAccount("Alice", 120.0)\<close> with the number \<open>acc-1\<close>.\<close>

definition ex_account :: account where
  "ex_account =
     \<lparr>account_number = ''acc-1'', account_holder_name = ''Alice'',
      balance = NFloat (whole 120), account_type = ''Savings'', transactions = [],
      creation_date = ex_today\<rparr>"

text \<open>The ledger that holds this account and no other.\<close>

definition ex_ledger :: banking_system where
  "ex_ledger = \<lparr>accounts = [''acc-1'' \<mapsto> ex_account]\<rparr>"

text \<open>
  \<open>BankAccount("Alice", 9007199254740992.0)\<close> and
  \<open>BankAccount("Alice", 9007199254740994.0)\<close>: balances of \<open>2 ** 53\<close> and
  \<open>2 ** 53 + 2\<close>, where the floats are two apart.
\<close>

definition ex_big_account :: account where
  "ex_big_account =
     \<lparr>account_number = ''acc-1'', account_holder_name = ''Alice'',
      balance = NFloat (whole 9007199254740992), account_type = ''Savings'', transactions = [],
      creation_date = ex_today\<rparr>"

definition ex_big2_account :: account where
  "ex_big2_account =
     \<lparr>account_number = ''acc-1'', account_holder_name = ''Alice'',
      balance = NFloat (whole 9007199254740994), account_type = ''Savings'', transactions = [],
      creation_date = ex_today\<rparr>"

text \<open>\<open>BankAccount("Alice", 100)\<close>, with an integer balance.\<close>

definition ex_int_account :: account where
  "ex_int_account =
     \<lparr>account_number = ''acc-1'', account_holder_name = ''Alice'',
      balance = NInt 100, account_type = ''Savings'', transactions = [],
      creation_date = ex_today\<rparr>"

text \<open>
  The account after \<open>deposit(50.0)\<close> and \<open>withdraw(30.0)\<close> on
  \<open>BankAccount("Alice", 120.0)\<close>.
\<close>

definition ex_history_account :: account where
  "ex_history_account =
     ex_account\<lparr>balance := NFloat (whole 140),
       transactions :=
         [\<lparr>timestamp = ex_now, type = ''Deposit'', amount = NFloat (whole 50)\<rparr>,
          \<lparr>timestamp = ex_now, type = ''Withdrawal'', amount = NFloat (whole (- 30))\<rparr>]\<rparr>"

text \<open>An integer beyond the range of the floats.\<close>

definition ex_huge :: int where
  "ex_huge = 10 ^ 400"

section \<open>Arithmetic of the float model\<close>

lemma bit_length_0 [simp]: "n \<le> 0 \<Longrightarrow> bit_length n = 0"
  by (simp add: bit_length.simps)

lemma bit_length_pos: "0 < n \<Longrightarrow> bit_length n = Suc (bit_length (n div 2))"
  by (subst bit_length.simps) simp

lemma bit_length_bounds: "0 < n \<Longrightarrow> 2 ^ (bit_length n - 1) \<le> n \<and> n < 2 ^ bit_length n"
proof (induction n rule: bit_length.induct)
  case (1 n)
  show ?case
  proof (cases "n div 2 = 0")
    case True
    with 1(2) have "n = 1" by presburger
    then show ?thesis by (simp add: bit_length_pos)
  next
    case False
    with 1(2) have p: "0 < n div 2" by presburger
    from 1(1) 1(2) p have ih: "2 ^ (bit_length (n div 2) - 1) \<le> n div 2 \<and> n div 2 < 2 ^ bit_length (n div 2)"
      by simp
    have bl: "bit_length n = Suc (bit_length (n div 2))" using 1(2) by (rule bit_length_pos)
    have "0 < bit_length (n div 2)" using p by (simp add: bit_length_pos)
    then obtain j where j: "bit_length (n div 2) = Suc j" by (cases "bit_length (n div 2)") auto
    from ih j have "2 * 2 ^ j \<le> n" "n < 2 * 2 ^ Suc j" by auto
    then show ?thesis by (simp add: bl j)
  qed
qed

lemma bit_length_pos_iff: "0 < bit_length n \<longleftrightarrow> 0 < n"
  by (cases "0 < n") (simp_all add: bit_length_pos)

lemma pow2_less_D: "(2::int) ^ x < 2 ^ y \<Longrightarrow> x < y"
  by simp

lemma pow2_le_D: "(2::int) ^ x \<le> 2 ^ y \<Longrightarrow> x \<le> y"
  by simp

lemma bit_length_unique:
  assumes "2 ^ j \<le> n" "n < 2 ^ Suc j"
  shows "bit_length n = Suc j"
proof -
  have n: "0 < n" using assms(1) by (smt (verit) zero_less_power)
  from bit_length_bounds[OF n] have b: "2 ^ (bit_length n - 1) \<le> n" "n < 2 ^ bit_length n" by auto
  have "(2::int) ^ j < 2 ^ bit_length n" using assms(1) b(2) by linarith
  then have 1: "j < bit_length n" by (rule pow2_less_D)
  have "(2::int) ^ (bit_length n - 1) < 2 ^ Suc j" using assms(2) b(1) by linarith
  then have 2: "bit_length n - 1 < Suc j" by (rule pow2_less_D)
  from 1 2 show ?thesis by linarith
qed

lemma bit_length_le_iff: "0 \<le> n \<Longrightarrow> bit_length n \<le> j \<longleftrightarrow> n < 2 ^ j"
proof (cases "n = 0")
  case True then show ?thesis by simp
next
  case False
  assume "0 \<le> n"
  with False have n: "0 < n" by simp
  from bit_length_bounds[OF n] have b: "2 ^ (bit_length n - 1) \<le> n" "n < 2 ^ bit_length n" by auto
  show ?thesis
  proof
    assume "bit_length n \<le> j"
    then have "(2::int) ^ bit_length n \<le> 2 ^ j" by (simp add: power_increasing)
    with b(2) show "n < 2 ^ j" by linarith
  next
    assume "n < 2 ^ j"
    with b(1) have "(2::int) ^ (bit_length n - 1) < 2 ^ j" by linarith
    then have "bit_length n - 1 < j" by (rule pow2_less_D)
    then show "bit_length n \<le> j" by linarith
  qed
qed

lemma bit_length_mono: "a \<le> b \<Longrightarrow> bit_length a \<le> bit_length b"
proof (cases "0 < a")
  case False then show ?thesis by simp
next
  case True
  assume ab: "a \<le> b"
  with True have b: "0 < b" by simp
  from bit_length_bounds[OF b] have "b < 2 ^ bit_length b" by simp
  with ab have "a < 2 ^ bit_length b" by simp
  with True show ?thesis by (simp add: bit_length_le_iff)
qed

lemma bit_length_shift: "0 < a \<Longrightarrow> bit_length (a * 2 ^ s) = bit_length a + s"
proof -
  assume a: "0 < a"
  from bit_length_bounds[OF a] have b: "2 ^ (bit_length a - 1) \<le> a" "a < 2 ^ bit_length a" by auto
  from a have "0 < bit_length a" by (simp add: bit_length_pos_iff)
  then obtain j where j: "bit_length a = Suc j" by (cases "bit_length a") auto
  have "2 ^ (j + s) \<le> a * 2 ^ s" using b(1) j by (simp add: power_add)
  moreover have "a * 2 ^ s < 2 ^ Suc (j + s)" using b(2) j by (simp add: power_add)
  ultimately have "bit_length (a * 2 ^ s) = Suc (j + s)" by (rule bit_length_unique)
  then show ?thesis by (simp add: j)
qed

lemma if_step_bounds: "(x::int) \<le> (if c then x else x + 1) \<and> (if c then x else x + 1) \<le> x + 1"
  by simp

lemma rhe_bounds: "a div 2 ^ k \<le> round_half_even a k \<and> round_half_even a k \<le> a div 2 ^ k + 1"
  unfolding round_half_even_def Let_def by (rule if_step_bounds)

lemma rhe_exact: "2 ^ k dvd a \<Longrightarrow> round_half_even a k = a div 2 ^ k"
  by (simp add: round_half_even_def Let_def dvd_eq_mod_eq_0)

lemma div_mult_le: "a div 2 ^ k * 2 ^ k \<le> (a::int)"
proof -
  have "0 \<le> a mod 2 ^ k" by simp
  moreover have "a = a div 2 ^ k * 2 ^ k + a mod 2 ^ k" by (rule div_mult_mod_eq[symmetric])
  ultimately show ?thesis by linarith
qed

lemma rhe_inexact: "\<not> 2 ^ k dvd (a::int) \<Longrightarrow> a div 2 ^ k * 2 ^ k < a"
proof -
  assume "\<not> 2 ^ k dvd a"
  then have "a mod 2 ^ k \<noteq> 0" by (simp add: dvd_eq_mod_eq_0)
  moreover have "0 \<le> a mod 2 ^ k" by simp
  moreover have "a = a div 2 ^ k * 2 ^ k + a mod 2 ^ k" by (rule div_mult_mod_eq[symmetric])
  ultimately show ?thesis by linarith
qed

lemma div_shift: "(a * 2 ^ s) div 2 ^ (k + s) = a div (2::int) ^ k"
  by (simp add: power_add)

lemma mod_shift: "(a * 2 ^ s) mod 2 ^ (k + s) = (a mod (2::int) ^ k) * 2 ^ s"
  unfolding power_add by (rule mult_mod_left[symmetric])

lemma rhe_shift: "round_half_even (a * 2 ^ s) (k + s) = round_half_even a k"
proof -
  have p: "(0::int) < 2 ^ s" by simp
  have 1: "2 * (a mod 2 ^ k * 2 ^ s) < 2 ^ (k + s) \<longleftrightarrow> 2 * (a mod 2 ^ k) < 2 ^ k"
    using mult_less_cancel_right_pos[OF p, of "2 * (a mod 2 ^ k)" "2 ^ k"]
    by (simp add: power_add mult.assoc)
  have 2: "2 * (a mod 2 ^ k * 2 ^ s) = 2 ^ (k + s) \<longleftrightarrow> 2 * (a mod 2 ^ k) = 2 ^ k"
    using mult_cancel_right[of "2 * (a mod 2 ^ k)" "2 ^ s" "2 ^ k"]
    by (simp add: power_add mult.assoc)
  show ?thesis
    unfolding round_half_even_def Let_def div_shift mod_shift 1 2 ..
qed

lemma round_mag_lower: "a div 2 ^ (bit_length a - 53) * 2 ^ (bit_length a - 53) \<le> round_mag a"
  using rhe_bounds[of a "bit_length a - 53"] by (simp add: round_mag_def Let_def)

lemma round_mag_upper: "round_mag a \<le> (a div 2 ^ (bit_length a - 53) + 1) * 2 ^ (bit_length a - 53)"
  using rhe_bounds[of a "bit_length a - 53"] by (simp add: round_mag_def Let_def)

lemma round_mag_exact: "2 ^ (bit_length a - 53) dvd a \<Longrightarrow> round_mag a = a"
  by (simp add: round_mag_def Let_def rhe_exact)

lemma round_mag_0 [simp]: "round_mag 0 = 0"
  by (simp add: round_mag_exact)

lemma round_mag_dvd: "2 ^ (bit_length a - 53) dvd round_mag a"
  by (simp add: round_mag_def Let_def)

text \<open>the leading 53 bits of a number with more than 53 bits\<close>
lemma top_bits:
  assumes "53 < bit_length a"
  shows "2 ^ 52 \<le> a div 2 ^ (bit_length a - 53)" "a div 2 ^ (bit_length a - 53) < 2 ^ 53"
proof -
  let ?k = "bit_length a - 53"
  have a: "0 < a" using assms by (simp add: bit_length_pos_iff[symmetric])
  from bit_length_bounds[OF a] have b: "2 ^ (bit_length a - 1) \<le> a" "a < 2 ^ bit_length a" by auto
  have e1: "bit_length a - 1 = 52 + ?k" using assms by simp
  have e2: "bit_length a = 53 + ?k" using assms by simp
  have "2 ^ 52 * 2 ^ ?k \<le> a" using b(1) unfolding e1 power_add .
  then have "(2 ^ 52 * 2 ^ ?k) div 2 ^ ?k \<le> a div 2 ^ ?k" by (rule zdiv_mono1) simp
  then show "2 ^ 52 \<le> a div 2 ^ ?k" by simp
  have "a < 2 ^ 53 * 2 ^ ?k" using b(2) e2 by (metis power_add)
  with div_mult_le[of a "?k"] have lt: "a div 2 ^ ?k * 2 ^ ?k < 2 ^ 53 * 2 ^ ?k" by linarith
  have p: "(0::int) < 2 ^ ?k" by simp
  from lt show "a div 2 ^ ?k < 2 ^ 53"
    unfolding mult_less_cancel_right_pos[OF p] .
qed

lemma round_mag_nonneg: "0 \<le> a \<Longrightarrow> 0 \<le> round_mag a"
proof -
  assume "0 \<le> a"
  then have "0 \<le> a div 2 ^ (bit_length a - 53)" by (simp add: pos_imp_zdiv_nonneg_iff)
  then have "0 \<le> a div 2 ^ (bit_length a - 53) * 2 ^ (bit_length a - 53)" by simp
  with round_mag_lower[of a] show ?thesis by linarith
qed

lemma round_mag_small: "bit_length a \<le> 53 \<Longrightarrow> round_mag a = a"
  by (simp add: round_mag_exact)

lemma round_mag_floor_ge:
  assumes "53 < bit_length a"
  shows "2 ^ (bit_length a - 1) \<le> a div 2 ^ (bit_length a - 53) * 2 ^ (bit_length a - 53)"
proof -
  let ?k = "bit_length a - 53"
  have e1: "bit_length a - 1 = 52 + ?k" using assms by simp
  have "(2::int) ^ 52 * 2 ^ ?k \<le> a div 2 ^ ?k * 2 ^ ?k"
    using top_bits(1)[OF assms] by (rule mult_right_mono) simp
  then show ?thesis unfolding e1 power_add .
qed

lemma round_mag_pos: "0 < a \<Longrightarrow> 0 < round_mag a"
proof (cases "53 < bit_length a")
  case False
  assume "0 < a"
  with False show ?thesis by (simp add: round_mag_small)
next
  case True
  have "(0::int) < 2 ^ (bit_length a - 1)" by simp
  with round_mag_floor_ge[OF True] round_mag_lower[of a] show ?thesis by linarith
qed

lemma round_mag_shift: "0 \<le> a \<Longrightarrow> round_mag (a * 2 ^ s) = round_mag a * 2 ^ s"
proof (cases "a = 0")
  case True then show ?thesis by simp
next
  case False
  assume "0 \<le> a"
  with False have a: "0 < a" by simp
  have bl: "bit_length (a * 2 ^ s) = bit_length a + s" using a by (rule bit_length_shift)
  show ?thesis
  proof (cases "53 \<le> bit_length a")
    case True
    then have k: "bit_length a + s - 53 = (bit_length a - 53) + s" by simp
    show ?thesis
      unfolding round_mag_def Let_def bl k rhe_shift power_add by (simp add: mult.assoc)
  next
    case False
    then have ra: "round_mag a = a" by (simp add: round_mag_small)
    from False have "bit_length a + s - 53 \<le> s" by simp
    then have "(2::int) ^ (bit_length a + s - 53) dvd 2 ^ s" by (rule le_imp_power_dvd)
    then have "2 ^ (bit_length (a * 2 ^ s) - 53) dvd a * 2 ^ s" unfolding bl by (rule dvd_mult)
    then have "round_mag (a * 2 ^ s) = a * 2 ^ s" by (rule round_mag_exact)
    with ra show ?thesis by simp
  qed
qed

text \<open>a rounded magnitude has at most 53 significant bits\<close>
lemma round_mag_is_double: "0 \<le> a \<Longrightarrow> 2 ^ (bit_length (round_mag a) - 53) dvd round_mag a"
proof (cases "53 < bit_length a")
  case False
  then have "round_mag a = a" by (simp add: round_mag_small)
  with False show ?thesis by simp
next
  case True
  let ?k = "bit_length a - 53"
  let ?q = "a div 2 ^ ?k"
  assume "0 \<le> a"
  have lo: "2 ^ (bit_length a - 1) \<le> round_mag a"
    using round_mag_floor_ge[OF True] round_mag_lower[of a] by linarith
  have e2: "53 + ?k = bit_length a" using True by simp
  have "?q + 1 \<le> 2 ^ 53" using top_bits(2)[OF True] by linarith
  then have "(?q + 1) * 2 ^ ?k \<le> 2 ^ 53 * 2 ^ ?k" by (rule mult_right_mono) simp
  also have "(2::int) ^ 53 * 2 ^ ?k = 2 ^ (53 + ?k)" by (simp only: power_add)
  also have "\<dots> = 2 ^ bit_length a" by (simp only: e2)
  finally have "(?q + 1) * 2 ^ ?k \<le> 2 ^ bit_length a" .
  with round_mag_upper[of a] have up: "round_mag a \<le> 2 ^ bit_length a"
    by (rule order_trans)
  show ?thesis
  proof (cases "round_mag a = 2 ^ bit_length a")
    case True
    have "bit_length ((2::int) ^ bit_length a) = Suc (bit_length a)"
      by (rule bit_length_unique) simp_all
    then show ?thesis unfolding True by (simp add: le_imp_power_dvd)
  next
    case False
    with up have "round_mag a < 2 ^ bit_length a" by linarith
    moreover obtain j where j: "bit_length a = Suc j" using True by (cases "bit_length a") auto
    ultimately have "bit_length (round_mag a) = bit_length a"
      using lo bit_length_unique[of j "round_mag a"] by simp
    then show ?thesis using round_mag_dvd[of a] by simp
  qed
qed

text \<open>rounding never crosses a double: it is monotone against representable values\<close>
lemma round_mag_ge_double:
  assumes d: "0 \<le> d" "2 ^ (bit_length d - 53) dvd d" and le: "d \<le> n"
  shows "d \<le> round_mag n"
proof (cases "bit_length d - 53 = bit_length n - 53")
  case True
  let ?k = "bit_length n - 53"
  from d(2) True obtain c where "d = 2 ^ ?k * c" by (auto simp: dvd_def)
  then have c: "d = c * 2 ^ ?k" by (simp only: mult.commute)
  from le c have "c * 2 ^ ?k \<le> n" by simp
  then have "c * 2 ^ ?k div 2 ^ ?k \<le> n div 2 ^ ?k" by (rule zdiv_mono1) simp
  then have "c \<le> n div 2 ^ ?k" by simp
  then have "c * 2 ^ ?k \<le> n div 2 ^ ?k * 2 ^ ?k" by (rule mult_right_mono) simp
  with round_mag_lower[of n] c show ?thesis by linarith
next
  case False
  have m: "bit_length d \<le> bit_length n" using le by (rule bit_length_mono)
  with False have big: "53 < bit_length n" and lt: "bit_length d < bit_length n" by auto
  from lt have "bit_length d \<le> bit_length n - 1" by simp
  then have "d < 2 ^ (bit_length n - 1)" using d(1) by (simp add: bit_length_le_iff)
  with round_mag_floor_ge[OF big] round_mag_lower[of n] show ?thesis by linarith
qed

lemma round_mag_le_double:
  assumes d: "2 ^ (bit_length d - 53) dvd d" and le: "n \<le> d"
  shows "round_mag n \<le> d"
proof (cases "2 ^ (bit_length n - 53) dvd n")
  case True
  then show ?thesis using le by (simp add: round_mag_exact)
next
  case False
  let ?k = "bit_length n - 53"
  have "bit_length n \<le> bit_length d" using le by (rule bit_length_mono)
  then have "?k \<le> bit_length d - 53" by simp
  then have "(2::int) ^ ?k dvd 2 ^ (bit_length d - 53)" by (rule le_imp_power_dvd)
  with d have "2 ^ ?k dvd d" by (rule dvd_trans[rotated])
  then obtain c0 where "d = 2 ^ ?k * c0" by (auto simp: dvd_def)
  then have c: "d = c0 * 2 ^ ?k" by (simp only: mult.commute)
  define c where "c = c0"
  note c = c[folded c_def]
  have "n div 2 ^ ?k * 2 ^ ?k < n" using False by (rule rhe_inexact)
  with le c have "n div 2 ^ ?k * 2 ^ ?k < c * 2 ^ ?k" by linarith
  then have "n div 2 ^ ?k < c" by (simp add: mult_less_cancel_right)
  then have "n div 2 ^ ?k + 1 \<le> c" by simp
  then have "(n div 2 ^ ?k + 1) * 2 ^ ?k \<le> c * 2 ^ ?k" by (rule mult_right_mono) simp
  with round_mag_upper[of n] c show ?thesis by linarith
qed

lemma fscale_pos [simp]: "0 < fscale" "0 \<le> fscale" "fscale \<noteq> 0" "\<not> fscale < 0" "\<not> fscale \<le> 0"
  by (simp_all add: fscale_def)

lemma fscale_cmp [simp]:
  "i * fscale < j * fscale \<longleftrightarrow> i < j"
  "i * fscale \<le> j * fscale \<longleftrightarrow> i \<le> j"
  "i * fscale = j * fscale \<longleftrightarrow> i = j"
  "i * fscale < 0 \<longleftrightarrow> i < 0"
  "0 < i * fscale \<longleftrightarrow> 0 < i"
  "i * fscale \<le> 0 \<longleftrightarrow> i \<le> 0"
  "0 \<le> i * fscale \<longleftrightarrow> 0 \<le> i"
  "i * fscale = 0 \<longleftrightarrow> i = 0"
  by (simp_all add: mult_less_cancel_right mult_le_cancel_right zero_less_mult_iff
      mult_less_0_iff zero_le_mult_iff mult_le_0_iff order.asym)

lemma round_mag_abs_shift: "round_mag \<bar>i * 2 ^ s\<bar> = round_mag \<bar>i\<bar> * 2 ^ s"
  by (simp add: abs_mult round_mag_shift)

lemma fl_round_whole:
  "fl_round (i * fscale) =
     (if 2 ^ 1024 \<le> round_mag \<bar>i\<bar> then (if i < 0 then NegInf else PosInf)
      else whole (if i < 0 then - round_mag \<bar>i\<bar> else round_mag \<bar>i\<bar>))"
proof -
  have "round_mag \<bar>i * fscale\<bar> = round_mag \<bar>i\<bar> * fscale"
    unfolding fscale_def by (rule round_mag_abs_shift)
  then show ?thesis
    by (simp add: fl_round_def fmax_def whole_def Let_def)
qed

lemma fl_add_whole [simp]: "fl_add (whole i) (whole j) = fl_round ((i + j) * fscale)"
  by (simp add: whole_def distrib_right)

lemma fl_neg_whole [simp]: "i \<noteq> 0 \<Longrightarrow> fl_neg (whole i) = whole (- i)"
  by (simp add: whole_def)

lemma ext_of_whole [simp]: "ext_of (NFloat (whole i)) = EFin (i * fscale)"
  by (simp add: whole_def)

lemma int_to_float_whole:
  "int_to_float i =
     (if 2 ^ 1024 \<le> round_mag \<bar>i\<bar> then Inl (OverflowError ''int too large to convert to float'')
      else Inr (whole (if i < 0 then - round_mag \<bar>i\<bar> else round_mag \<bar>i\<bar>)))"
  by (simp add: int_to_float_def fl_round_whole whole_def)

lemma rhe_exact_mult: "round_half_even (a * 2 ^ k) k = a"
  by (simp add: rhe_exact)

lemma format_float_whole:
  "format_float_2f (whole i) = (if i < 0 then ''-'' else []) @ digits \<bar>i\<bar> @ ''.00''"
proof -
  have "\<bar>i * 2 ^ s\<bar> * 100 = (\<bar>i\<bar> * 100) * 2 ^ s" for s :: nat
    by (simp add: abs_mult)
  then have "round_half_even (\<bar>i * 2 ^ s\<bar> * 100) s = \<bar>i\<bar> * 100" for s :: nat
    by (simp only: rhe_exact_mult)
  then have "round_half_even (\<bar>i * fscale\<bar> * 100) 1074 = \<bar>i\<bar> * 100"
    unfolding fscale_def .
  then show ?thesis
    by (simp add: whole_def fixed2_def digit_def)
qed

lemma exact_value_whole [simp]: "exact_value (NFloat (whole i)) = Some (of_int i)"
  by (simp add: whole_def fscale_def)

lemmas eval_simps = bit_length.simps round_mag_def round_half_even_def Let_def
  fl_round_whole int_to_float_whole format_float_whole digits.simps digit_def
  num_add_def num_sub_def float_op_def num_le_def num_lt_def num_gt_def format_2f_def
  deposit_def withdraw_def add_transaction_def BankAccount_init_def fl_sub_def

section \<open>Comparisons and arithmetic of numbers\<close>

text \<open>Signed rounding, as \<open>fl_round\<close> does it.\<close>

lemma fmax_pos [simp]: "0 < fmax"
  by (simp add: fmax_def)

lemma fl_round_cases:
  "fl_round n = (if fmax \<le> round_mag \<bar>n\<bar> then (if n < 0 then NegInf else PosInf)
                 else Finite (if n < 0 then - round_mag \<bar>n\<bar> else round_mag \<bar>n\<bar>))"
  by (simp add: fl_round_def Let_def)

lemma dvd_abs_bl: "2 ^ (bit_length \<bar>d\<bar> - 53) dvd d \<longleftrightarrow> 2 ^ (bit_length \<bar>d\<bar> - 53) dvd \<bar>d\<bar>"
  by simp

lemma is_double_fl_round: "is_double (fl_round n)"
proof -
  define r where "r = round_mag \<bar>n\<bar>"
  have d: "2 ^ (bit_length r - 53) dvd r"
    unfolding r_def by (rule round_mag_is_double) simp
  have nn: "0 \<le> r" unfolding r_def by (rule round_mag_nonneg) simp
  have "fl_round n = (if fmax \<le> r then (if n < 0 then NegInf else PosInf)
                 else Finite (if n < 0 then - r else r))"
    unfolding r_def by (rule fl_round_cases)
  with d nn show ?thesis
    by (simp add: is_double_def)
qed

lemma is_double_fl_neg: "is_double f \<Longrightarrow> is_double (fl_neg f)"
  by (cases f) (simp_all add: is_double_def)

lemma is_double_fl_add: "is_double x \<Longrightarrow> is_double y \<Longrightarrow> is_double (fl_add x y)"
  by (cases x; cases y) (simp_all add: is_double_fl_round, simp_all add: is_double_def)

lemma is_double_int_to_float: "int_to_float i = Inr f \<Longrightarrow> is_double f"
  using is_double_fl_round[of "i * fscale"]
  by (auto simp: int_to_float_def split: pyfloat.splits)

lemma is_double_to_float: "wf_number x \<Longrightarrow> to_float x = Inr f \<Longrightarrow> is_double f"
  by (cases x) (auto dest: is_double_int_to_float)

lemma wf_num_add: "wf_number x \<Longrightarrow> wf_number y \<Longrightarrow> num_add x y = Inr z \<Longrightarrow> wf_number z"
  by (auto simp: num_add_def float_op_def is_double_fl_add is_double_to_float
      split: option.splits sum.splits)

lemma wf_num_sub: "wf_number x \<Longrightarrow> wf_number y \<Longrightarrow> num_sub x y = Inr z \<Longrightarrow> wf_number z"
  by (auto simp: num_sub_def float_op_def fl_sub_def is_double_fl_add is_double_fl_neg
      is_double_to_float split: option.splits sum.splits)

lemma sround_ge:
  assumes d: "2 ^ (bit_length \<bar>d\<bar> - 53) dvd d" and le: "d \<le> n"
  shows "d \<le> (if n < 0 then - round_mag \<bar>n\<bar> else round_mag \<bar>n\<bar>)"
proof (cases "n < 0")
  case True
  with le have "\<bar>n\<bar> \<le> \<bar>d\<bar>" by simp
  moreover from d have "2 ^ (bit_length \<bar>d\<bar> - 53) dvd \<bar>d\<bar>" by simp
  ultimately have "round_mag \<bar>n\<bar> \<le> \<bar>d\<bar>" by (intro round_mag_le_double)
  with True le show ?thesis by simp
next
  case False
  show ?thesis
  proof (cases "d < 0")
    case True
    have "0 \<le> round_mag \<bar>n\<bar>" by (rule round_mag_nonneg) simp
    with True False show ?thesis by simp
  next
    case dn: False
    then have "\<bar>d\<bar> = d" by simp
    with d have "2 ^ (bit_length d - 53) dvd d" by simp
    moreover from dn have "0 \<le> d" by simp
    moreover from le False have "d \<le> \<bar>n\<bar>" by simp
    ultimately have "d \<le> round_mag \<bar>n\<bar>" by (intro round_mag_ge_double)
    with False show ?thesis by simp
  qed
qed

lemma sround_le:
  assumes d: "2 ^ (bit_length \<bar>d\<bar> - 53) dvd d" and le: "n \<le> d"
  shows "(if n < 0 then - round_mag \<bar>n\<bar> else round_mag \<bar>n\<bar>) \<le> d"
proof (cases "n < 0")
  case False
  with le have dn: "0 \<le> d" "\<bar>n\<bar> \<le> d" by simp_all
  then have "\<bar>d\<bar> = d" by simp
  with d have "2 ^ (bit_length d - 53) dvd d" by simp
  with dn(2) have "round_mag \<bar>n\<bar> \<le> d" by (intro round_mag_le_double)
  with False show ?thesis by simp
next
  case True
  show ?thesis
  proof (cases "0 \<le> d")
    case True
    have "0 \<le> round_mag \<bar>n\<bar>" by (rule round_mag_nonneg) simp
    with True \<open>n < 0\<close> show ?thesis by simp
  next
    case False
    then have "0 \<le> \<bar>d\<bar>" "\<bar>d\<bar> \<le> \<bar>n\<bar>" using le True by simp_all
    moreover from d have "2 ^ (bit_length \<bar>d\<bar> - 53) dvd \<bar>d\<bar>" by simp
    ultimately have "\<bar>d\<bar> \<le> round_mag \<bar>n\<bar>" by (intro round_mag_ge_double)
    with True False show ?thesis by simp
  qed
qed

lemma int_to_float_Inr:
  "int_to_float i = Inr f \<Longrightarrow>
     f = Finite (if i * fscale < 0 then - round_mag \<bar>i * fscale\<bar> else round_mag \<bar>i * fscale\<bar>)"
  by (auto simp: int_to_float_def fl_round_cases split: if_splits)

lemma float_ge_int:
  assumes "int_to_float i = Inr f" "is_double g"
    and "\<not> ext_lt (EFin (i * fscale)) (ext_of (NFloat g))"
  shows "\<not> ext_lt (ext_of (NFloat f)) (ext_of (NFloat g))"
proof (cases g)
  case (Finite d)
  with assms(2) have d: "2 ^ (bit_length \<bar>d\<bar> - 53) dvd d" by (simp add: is_double_def)
  from assms(3) Finite have "d \<le> i * fscale" by simp
  with d have "d \<le> (if i * fscale < 0 then - round_mag \<bar>i * fscale\<bar> else round_mag \<bar>i * fscale\<bar>)"
    by (rule sround_ge)
  with int_to_float_Inr[OF assms(1)] Finite show ?thesis by simp
next
  case NegZero
  from assms(3) NegZero have "0 \<le> i * fscale" by simp
  moreover have "0 \<le> round_mag \<bar>i * fscale\<bar>" by (rule round_mag_nonneg) simp
  ultimately show ?thesis using int_to_float_Inr[OF assms(1)] NegZero by simp
qed (use assms(3) in simp_all)

lemma float_le_int:
  assumes "int_to_float i = Inr f" "is_double g"
    and "\<not> ext_lt (ext_of (NFloat g)) (EFin (i * fscale))"
  shows "\<not> ext_lt (ext_of (NFloat g)) (ext_of (NFloat f))"
proof (cases g)
  case (Finite d)
  with assms(2) have d: "2 ^ (bit_length \<bar>d\<bar> - 53) dvd d" by (simp add: is_double_def)
  from assms(3) Finite have "i * fscale \<le> d" by simp
  with d have "(if i * fscale < 0 then - round_mag \<bar>i * fscale\<bar> else round_mag \<bar>i * fscale\<bar>) \<le> d"
    by (rule sround_le)
  with int_to_float_Inr[OF assms(1)] Finite show ?thesis by simp
next
  case NegZero
  from assms(3) NegZero have "i * fscale \<le> 0" by simp
  moreover have "0 \<le> round_mag \<bar>i * fscale\<bar>" by (rule round_mag_nonneg) simp
  ultimately show ?thesis using int_to_float_Inr[OF assms(1)] NegZero
    by (simp split: if_splits)
qed (use assms(3) int_to_float_Inr[OF assms(1)] in simp_all)

lemma int_to_float_pos:
  assumes "int_to_float i = Inr f" "0 < i"
  shows "\<not> ext_le (ext_of (NFloat f)) (EFin 0)"
proof -
  from assms(2) have "0 < \<bar>i * fscale\<bar>" by simp
  then have "0 < round_mag \<bar>i * fscale\<bar>" by (rule round_mag_pos)
  with int_to_float_Inr[OF assms(1)] assms(2) show ?thesis by simp
qed

lemma int_to_float_nonneg:
  assumes "int_to_float i = Inr f" "0 \<le> i"
  shows "\<not> ext_lt (ext_of (NFloat f)) (EFin 0)"
proof -
  have "0 \<le> round_mag \<bar>i * fscale\<bar>" by (rule round_mag_nonneg) simp
  with int_to_float_Inr[OF assms(1)] assms(2) show ?thesis by simp
qed

lemma fl_round_nonneg: "0 \<le> n \<Longrightarrow> \<not> ext_lt (ext_of (NFloat (fl_round n))) (EFin 0)"
proof -
  assume "0 \<le> n"
  moreover have "0 \<le> round_mag \<bar>n\<bar>" by (rule round_mag_nonneg) simp
  ultimately show ?thesis by (simp add: fl_round_cases)
qed

lemma fl_sub_nonneg:
  assumes "\<not> ext_le (ext_of (NFloat fa)) (EFin 0)"
    and "\<not> ext_lt (ext_of (NFloat fb)) (ext_of (NFloat fa))"
  shows "\<not> ext_lt (ext_of (NFloat (fl_sub fb fa))) (EFin 0)"
  using assms
  by (cases fa; cases fb) (simp_all add: fl_sub_def fl_round_nonneg split: if_splits)

lemma fl_add_nonneg:
  assumes "\<not> ext_le (ext_of (NFloat fa)) (EFin 0)"
    and "\<not> ext_lt (ext_of (NFloat fb)) (EFin 0)"
  shows "\<not> ext_lt (ext_of (NFloat (fl_add fb fa))) (EFin 0)"
  using assms
  by (cases fa; cases fb) (simp_all add: fl_round_nonneg)

lemma int_like:
  "int_value x = Some i \<Longrightarrow> ext_of x = EFin (i * fscale) \<and> to_float x = int_to_float i"
  by (cases x) auto

lemma not_int_like: "int_value x = None \<Longrightarrow> \<exists>g. x = NFloat g"
  by (cases x) auto

text \<open>what a conversion to float keeps of the comparisons of its argument\<close>

lemma to_float_pos:
  "to_float x = Inr f \<Longrightarrow> \<not> num_le x (NInt 0) \<Longrightarrow> \<not> ext_le (ext_of (NFloat f)) (EFin 0)"
proof (cases "int_value x")
  case None
  assume "to_float x = Inr f" "\<not> num_le x (NInt 0)"
  with not_int_like[OF None] show ?thesis by (auto simp: num_le_def)
next
  case (Some i)
  assume a: "to_float x = Inr f" "\<not> num_le x (NInt 0)"
  from int_like[OF Some] a have "int_to_float i = Inr f" "0 < i"
    by (simp_all add: num_le_def)
  then show ?thesis by (rule int_to_float_pos)
qed

lemma to_float_nonneg:
  "to_float x = Inr f \<Longrightarrow> \<not> num_lt x (NInt 0) \<Longrightarrow> \<not> ext_lt (ext_of (NFloat f)) (EFin 0)"
proof (cases "int_value x")
  case None
  assume "to_float x = Inr f" "\<not> num_lt x (NInt 0)"
  with not_int_like[OF None] show ?thesis by (auto simp: num_lt_def)
next
  case (Some i)
  assume a: "to_float x = Inr f" "\<not> num_lt x (NInt 0)"
  from int_like[OF Some] a have "int_to_float i = Inr f" "0 \<le> i"
    by (simp_all add: num_lt_def)
  then show ?thesis by (rule int_to_float_nonneg)
qed

lemma to_float_not_gt:
  assumes wf: "wf_number a" "wf_number b"
    and fa: "to_float a = Inr fa" and fb: "to_float b = Inr fb"
    and mixed: "int_value a = None \<or> int_value b = None"
    and le: "\<not> num_gt a b"
  shows "\<not> ext_lt (ext_of (NFloat fb)) (ext_of (NFloat fa))"
proof (cases "int_value a")
  case None
  then obtain g where g: "a = NFloat g" using not_int_like by blast
  with fa wf have ga: "fa = g" "is_double g" by simp_all
  show ?thesis
  proof (cases "int_value b")
    case None
    then obtain h where "b = NFloat h" using not_int_like by blast
    with fb g ga le show ?thesis by (simp add: num_gt_def num_lt_def)
  next
    case (Some j)
    from int_like[OF Some] fb have j: "int_to_float j = Inr fb" "ext_of b = EFin (j * fscale)"
      by simp_all
    from le g j(2) have "\<not> ext_lt (EFin (j * fscale)) (ext_of (NFloat g))"
      by (simp add: num_gt_def num_lt_def)
    with j(1) ga(2) have "\<not> ext_lt (ext_of (NFloat fb)) (ext_of (NFloat g))"
      by (rule float_ge_int)
    with ga show ?thesis by simp
  qed
next
  case (Some i)
  with mixed have "int_value b = None" by simp
  then obtain h where h: "b = NFloat h" using not_int_like by blast
  with fb wf have hb: "fb = h" "is_double h" by simp_all
  from int_like[OF Some] fa have i: "int_to_float i = Inr fa" "ext_of a = EFin (i * fscale)"
    by simp_all
  from le h i(2) have "\<not> ext_lt (ext_of (NFloat h)) (EFin (i * fscale))"
    by (simp add: num_gt_def num_lt_def)
  with i(1) hb(2) have "\<not> ext_lt (ext_of (NFloat h)) (ext_of (NFloat fa))"
    by (rule float_le_int)
  with hb show ?thesis by simp
qed

lemma withdraw_balance_nonneg:
  assumes wf: "wf_number a" "wf_number b"
    and pos: "\<not> num_le a (NInt 0)" and le: "\<not> num_gt a b"
    and sub: "num_sub b a = Inr b'"
  shows "\<not> num_lt b' (NInt 0)"
proof (cases "int_value a = None \<or> int_value b = None")
  case False
  then obtain i j where ij: "int_value a = Some i" "int_value b = Some j" by auto
  from int_like[OF ij(1)] int_like[OF ij(2)] le have "i \<le> j"
    by (simp add: num_gt_def num_lt_def)
  moreover from sub ij have "b' = NInt (j - i)" by (simp add: num_sub_def)
  ultimately show ?thesis by (simp add: num_lt_def)
next
  case True
  with sub have "float_op fl_sub b a = Inr b'"
    by (auto simp: num_sub_def split: option.splits)
  then obtain fa fb where f: "to_float a = Inr fa" "to_float b = Inr fb"
    and b': "b' = NFloat (fl_sub fb fa)"
    by (auto simp: float_op_def split: sum.splits)
  from f(1) pos have "\<not> ext_le (ext_of (NFloat fa)) (EFin 0)" by (rule to_float_pos)
  moreover from wf f True le have "\<not> ext_lt (ext_of (NFloat fb)) (ext_of (NFloat fa))"
    by (rule to_float_not_gt)
  ultimately have "\<not> ext_lt (ext_of (NFloat (fl_sub fb fa))) (EFin 0)" by (rule fl_sub_nonneg)
  with b' show ?thesis by (simp add: num_lt_def)
qed

lemma deposit_balance_nonneg:
  assumes pos: "\<not> num_le a (NInt 0)" and nn: "\<not> num_lt b (NInt 0)"
    and add: "num_add b a = Inr b'"
  shows "\<not> num_lt b' (NInt 0)"
proof (cases "int_value a = None \<or> int_value b = None")
  case False
  then obtain i j where ij: "int_value a = Some i" "int_value b = Some j" by auto
  from int_like[OF ij(1)] int_like[OF ij(2)] pos nn have "0 < i" "0 \<le> j"
    by (simp_all add: num_le_def num_lt_def)
  moreover from add ij have "b' = NInt (j + i)" by (simp add: num_add_def)
  ultimately show ?thesis by (simp add: num_lt_def)
next
  case True
  with add have "float_op fl_add b a = Inr b'"
    by (auto simp: num_add_def split: option.splits)
  then obtain fa fb where f: "to_float a = Inr fa" "to_float b = Inr fb"
    and b': "b' = NFloat (fl_add fb fa)"
    by (auto simp: float_op_def split: sum.splits)
  from f(1) pos have "\<not> ext_le (ext_of (NFloat fa)) (EFin 0)" by (rule to_float_pos)
  moreover from f(2) nn have "\<not> ext_lt (ext_of (NFloat fb)) (EFin 0)" by (rule to_float_nonneg)
  ultimately have "\<not> ext_lt (ext_of (NFloat (fl_add fb fa))) (EFin 0)" by (rule fl_add_nonneg)
  with b' show ?thesis by (simp add: num_lt_def)
qed

text \<open>a subtraction of a positive amount is the addition of its negation\<close>

lemma int_to_float_neg:
  assumes "0 < i"
  shows "int_to_float (- i) = map_sum id fl_neg (int_to_float i)"
proof -
  have "0 < \<bar>i * fscale\<bar>" using assms by simp
  then have "0 < round_mag \<bar>i * fscale\<bar>" by (rule round_mag_pos)
  then show ?thesis using assms
    by (simp add: int_to_float_def fl_round_cases)
qed

lemma num_sub_as_add:
  assumes "\<not> num_le a (NInt 0)"
  shows "num_sub b a = num_add b (num_neg a)"
proof (cases "int_value a")
  case None
  then obtain g where "a = NFloat g" using not_int_like by blast
  then show ?thesis
    by (simp add: num_sub_def num_add_def float_op_def fl_sub_def split: option.splits sum.splits)
next
  case (Some i)
  from int_like[OF Some] assms have i: "0 < i" by (simp add: num_le_def)
  from Some have n: "num_neg a = NInt (- i)" by (cases a) (auto split: if_splits)
  from int_like[OF Some] have t: "to_float a = int_to_float i" by simp
  show ?thesis
  proof (cases "int_value b")
    case (Some j)
    with \<open>int_value a = Some i\<close> n show ?thesis by (simp add: num_sub_def num_add_def)
  next
    case None
    with \<open>int_value a = Some i\<close> n t int_to_float_neg[OF i] show ?thesis
      by (cases "int_to_float i")
        (simp_all add: num_sub_def num_add_def float_op_def fl_sub_def split: sum.splits)
  qed
qed

lemma round_mag_le_pow2: "0 \<le> a \<Longrightarrow> round_mag a \<le> 2 ^ bit_length a"
proof (cases "53 < bit_length a")
  case False
  assume a: "0 \<le> a"
  from False have "round_mag a = a" by (simp add: round_mag_small)
  moreover have "a < 2 ^ bit_length a" using a by (simp add: bit_length_le_iff[symmetric])
  ultimately show ?thesis by simp
next
  case True
  let ?k = "bit_length a - 53"
  let ?q = "a div 2 ^ ?k"
  have e2: "53 + ?k = bit_length a" using True by simp
  have "?q + 1 \<le> 2 ^ 53" using top_bits(2)[OF True] by linarith
  then have "(?q + 1) * 2 ^ ?k \<le> 2 ^ 53 * 2 ^ ?k" by (rule mult_right_mono) simp
  also have "(2::int) ^ 53 * 2 ^ ?k = 2 ^ (53 + ?k)" by (simp only: power_add)
  also have "\<dots> = 2 ^ bit_length a" by (simp only: e2)
  finally have "(?q + 1) * 2 ^ ?k \<le> 2 ^ bit_length a" .
  with round_mag_upper[of a] show ?thesis by (rule order_trans)
qed

lemma rhe_mono_rem:
  assumes "x div 2 ^ k = y div 2 ^ k" "x \<le> y"
  shows "round_half_even x k \<le> round_half_even y k"
proof -
  define q where "q = y div 2 ^ k * 2 ^ k"
  have "x = x div 2 ^ k * 2 ^ k + x mod 2 ^ k" by (rule div_mult_mod_eq[symmetric])
  then have x: "x = q + x mod 2 ^ k" unfolding q_def assms(1) .
  have "y = y div 2 ^ k * 2 ^ k + y mod 2 ^ k" by (rule div_mult_mod_eq[symmetric])
  then have y: "y = q + y mod 2 ^ k" unfolding q_def .
  from x y assms(2) have "x mod 2 ^ k \<le> y mod 2 ^ k" by linarith
  then show ?thesis using assms(1)
    by (auto simp: round_half_even_def Let_def)
qed

lemma round_mag_mono:
  assumes "0 \<le> x" "x \<le> y"
  shows "round_mag x \<le> round_mag y"
proof (cases "bit_length x = bit_length y")
  case False
  with bit_length_mono[OF assms(2)] have lt: "bit_length x < bit_length y" by simp
  then have "bit_length x \<le> bit_length y - 1" by simp
  then have "(2::int) ^ bit_length x \<le> 2 ^ (bit_length y - 1)" by (rule power_increasing) simp
  with round_mag_le_pow2[OF assms(1)] have up: "round_mag x \<le> 2 ^ (bit_length y - 1)" by linarith
  show ?thesis
  proof (cases "53 < bit_length y")
    case True
    with round_mag_floor_ge[OF True] round_mag_lower[of y] up show ?thesis by linarith
  next
    case False
    with lt have "round_mag x = x" "round_mag y = y" by (simp_all add: round_mag_small)
    with assms(2) show ?thesis by simp
  qed
next
  case True
  let ?k = "bit_length y - 53"
  have dq: "x div 2 ^ ?k \<le> y div 2 ^ ?k" using assms(2) by (rule zdiv_mono1) simp
  show ?thesis
  proof (cases "x div 2 ^ ?k = y div 2 ^ ?k")
    case eq: True
    from eq assms(2) have "round_half_even x ?k \<le> round_half_even y ?k" by (rule rhe_mono_rem)
    then have "round_half_even x ?k * 2 ^ ?k \<le> round_half_even y ?k * 2 ^ ?k"
      by (rule mult_right_mono) simp
    then show ?thesis by (simp add: round_mag_def Let_def True)
  next
    case False
    with dq have "x div 2 ^ ?k + 1 \<le> y div 2 ^ ?k" by simp
    then have m: "(x div 2 ^ ?k + 1) * 2 ^ ?k \<le> y div 2 ^ ?k * 2 ^ ?k"
      by (rule mult_right_mono) simp
    have u: "round_mag x \<le> (x div 2 ^ ?k + 1) * 2 ^ ?k"
      using round_mag_upper[of x] True by simp
    from u m round_mag_lower[of y] show ?thesis by linarith
  qed
qed

lemma pow2_double: "2 ^ (bit_length (2 ^ n) - 53) dvd (2::int) ^ n"
proof -
  have "bit_length ((2::int) ^ n) = Suc n" by (rule bit_length_unique) simp_all
  then show ?thesis by (simp add: le_imp_power_dvd)
qed

lemma fmax_pow2: "fmax = 2 ^ (1024 + 1074)"
  unfolding fmax_def fscale_def power_add ..

lemma fmax_double: "2 ^ (bit_length fmax - 53) dvd fmax"
  unfolding fmax_pow2 by (rule pow2_double)

lemma round_mag_overflow: "fmax \<le> a \<Longrightarrow> fmax \<le> round_mag a"
  using fmax_double by (intro round_mag_ge_double) (simp_all add: less_imp_le)

lemma int_to_float_overflow:
  assumes "2 ^ 1024 \<le> \<bar>i\<bar>"
  shows "int_to_float i = Inl (OverflowError ''int too large to convert to float'')"
proof -
  from assms have "2 ^ 1024 * fscale \<le> \<bar>i\<bar> * fscale" by simp
  then have "fmax \<le> \<bar>i * fscale\<bar>" by (simp add: fmax_def abs_mult)
  then have "fmax \<le> round_mag \<bar>i * fscale\<bar>" by (rule round_mag_overflow)
  then show ?thesis by (simp add: int_to_float_def fl_round_cases)
qed

lemma shift_double_iff:
  "2 ^ (bit_length \<bar>i * 2 ^ s\<bar> - 53) dvd i * 2 ^ s \<longleftrightarrow> 2 ^ (bit_length \<bar>i\<bar> - 53) dvd i"
proof (cases "i = 0")
  case True
  then show ?thesis by simp
next
  case False
  then have bl: "bit_length \<bar>i * 2 ^ s\<bar> = bit_length \<bar>i\<bar> + s"
    by (simp add: abs_mult bit_length_shift)
  show ?thesis
  proof (cases "53 \<le> bit_length \<bar>i\<bar>")
    case True
    then have k: "bit_length \<bar>i\<bar> + s - 53 = (bit_length \<bar>i\<bar> - 53) + s" by simp
    show ?thesis unfolding bl k power_add by simp
  next
    case False
    then have "bit_length \<bar>i\<bar> + s - 53 \<le> s" by simp
    then have "(2::int) ^ (bit_length \<bar>i\<bar> + s - 53) dvd 2 ^ s" by (rule le_imp_power_dvd)
    then have "2 ^ (bit_length \<bar>i\<bar> + s - 53) dvd i * 2 ^ s" by (rule dvd_mult)
    with False show ?thesis unfolding bl by simp
  qed
qed

lemma is_double_whole:
  "is_double (whole i) \<longleftrightarrow> 2 ^ (bit_length \<bar>i\<bar> - 53) dvd i \<and> \<bar>i\<bar> < 2 ^ 1024"
proof -
  have d: "2 ^ (bit_length \<bar>i * fscale\<bar> - 53) dvd i * fscale \<longleftrightarrow>
      2 ^ (bit_length \<bar>i\<bar> - 53) dvd i"
    unfolding fscale_def by (rule shift_double_iff)
  have "\<bar>i * fscale\<bar> < fmax \<longleftrightarrow> \<bar>i\<bar> * fscale < 2 ^ 1024 * fscale"
    by (simp only: fmax_def abs_mult) simp
  then have "\<bar>i * fscale\<bar> < fmax \<longleftrightarrow> \<bar>i\<bar> < 2 ^ 1024" by (simp only: fscale_cmp)
  with d show ?thesis by (simp add: is_double_def whole_def)
qed

lemmas eval_account = eval_simps num_neg.simps run_account.simps account_step.simps
  is_double_whole

section \<open>Properties of the formatting\<close>

lemma is_digit_digit: "0 \<le> d \<Longrightarrow> d < 10 \<Longrightarrow> is_digit (digit d)"
proof -
  assume "0 \<le> d" "d < 10"
  then have "d = 0 \<or> d = 1 \<or> d = 2 \<or> d = 3 \<or> d = 4 \<or> d = 5 \<or> d = 6 \<or> d = 7 \<or> d = 8 \<or> d = 9"
    by presburger
  then show ?thesis by (auto simp: is_digit_def digit_def)
qed

lemma digit_not_minus: "is_digit c \<Longrightarrow> c \<noteq> CHR ''-''"
  by (auto simp: is_digit_def)

lemma digits_small: "n < 10 \<Longrightarrow> digits n = [digit n]"
  by (subst digits.simps) simp

lemma digits_large: "10 \<le> n \<Longrightarrow> digits n = digits (n div 10) @ [digit (n mod 10)]"
  by (subst digits.simps) simp

lemma digits_all: "0 \<le> n \<Longrightarrow> digits n \<noteq> [] \<and> list_all is_digit (digits n)"
proof (induction n rule: digits.induct)
  case (1 n)
  show ?case
  proof (cases "n < 10")
    case True
    with 1(2) show ?thesis by (simp add: digits_small is_digit_digit)
  next
    case False
    then have "0 \<le> n div 10" by simp
    with 1(1) False have "list_all is_digit (digits (n div 10))" by simp
    moreover have "is_digit (digit (n mod 10))" by (rule is_digit_digit) simp_all
    ultimately show ?thesis using False by (simp add: digits_large)
  qed
qed

lemma two_decimals_fixed2:
  assumes "0 \<le> h"
  shows "two_decimals (fixed2 h)" "two_decimals (''-'' @ fixed2 h)"
proof -
  let ?ds = "digits (h div 100)"
  have q: "0 \<le> h div 100" using assms by simp
  from digits_all[OF q] have ds: "?ds \<noteq> []" "list_all is_digit ?ds" by simp_all
  have d1: "is_digit (digit (h mod 100 div 10))" by (rule is_digit_digit) simp_all
  have d2: "is_digit (digit (h mod 10))" by (rule is_digit_digit) simp_all
  from ds have "is_digit (hd ?ds)" by (cases ?ds) simp_all
  then have hd: "hd ?ds \<noteq> CHR ''-''" by (rule digit_not_minus)
  have len: "length (fixed2 h) = length ?ds + 3" by (simp add: fixed2_def)
  have nth: "fixed2 h ! length ?ds = CHR ''.''" by (simp add: fixed2_def nth_append)
  have tk: "take (length ?ds) (fixed2 h) = ?ds" by (simp add: fixed2_def)
  have dr: "drop (Suc (length ?ds)) (fixed2 h) = [digit (h mod 100 div 10), digit (h mod 10)]"
    by (simp add: fixed2_def)
  have ne: "fixed2 h \<noteq> []" by (simp add: fixed2_def)
  have l1: "Suc 0 \<le> length ?ds" using ds(1) by (cases ?ds) simp_all
  have hd2: "hd (fixed2 h) \<noteq> CHR ''-''" using hd ds(1) by (simp add: fixed2_def)
  from len nth tk dr ds d1 d2 ne hd2 l1 show "two_decimals (fixed2 h)"
    by (simp add: two_decimals_def Let_def)
  from len nth tk dr ds d1 d2 l1 show "two_decimals (''-'' @ fixed2 h)"
    by (simp add: two_decimals_def Let_def)
qed

lemma rhe_nonneg: "0 \<le> a \<Longrightarrow> 0 \<le> round_half_even a k"
proof -
  assume "0 \<le> a"
  then have "0 \<le> a div 2 ^ k" by (simp add: pos_imp_zdiv_nonneg_iff)
  with rhe_bounds[of a k] show ?thesis by linarith
qed

lemma two_decimals_float: "finite_float f \<Longrightarrow> two_decimals (format_float_2f f)"
proof (cases f)
  case (Finite n)
  define h where "h = round_half_even (\<bar>n\<bar> * 100) 1074"
  have "0 \<le> h" unfolding h_def by (rule rhe_nonneg) simp
  note t = two_decimals_fixed2[OF this]
  have "format_float_2f f = (if n < 0 then ''-'' else []) @ fixed2 h"
    unfolding h_def Finite by (rule format_float_2f.simps)
  with t show ?thesis by (cases "n < 0") simp_all
next
  case NegZero
  then show ?thesis by (simp add: two_decimals_def is_digit_def)
qed simp_all

lemma has_2f_format: "has_2f x \<Longrightarrow> \<exists>s. format_2f x = Inr s \<and> two_decimals s"
  by (auto simp: has_2f_def format_2f_def two_decimals_float split: sum.splits)

lemma float_sign: "to_float x = Inr f \<Longrightarrow> num_lt x (NInt 0) \<Longrightarrow> hd (format_float_2f f) = CHR ''-''"
proof (cases "int_value x")
  case None
  assume a: "to_float x = Inr f" "num_lt x (NInt 0)"
  from not_int_like[OF None] obtain g where "x = NFloat g" by blast
  with a have "f = g" "ext_lt (ext_of (NFloat g)) (EFin 0)" by (simp_all add: num_lt_def)
  then show ?thesis by (cases g) simp_all
next
  case (Some i)
  assume a: "to_float x = Inr f" "num_lt x (NInt 0)"
  from int_like[OF Some] a have i: "int_to_float i = Inr f" "i < 0" by (simp_all add: num_lt_def)
  then have "0 < \<bar>i * fscale\<bar>" by simp
  then have "0 < round_mag \<bar>i * fscale\<bar>" by (rule round_mag_pos)
  with int_to_float_Inr[OF i(1)] i(2) show ?thesis by simp
qed

lemma left_aligned_ljust: "left_aligned w s (ljust w s)"
  by (auto simp: left_aligned_def ljust_def list_all_iff)

lemma right_aligned_rjust: "right_aligned w s (rjust w s)"
  by (auto simp: right_aligned_def rjust_def list_all_iff)

lemma digits2: "10 \<le> n \<Longrightarrow> n < 100 \<Longrightarrow> digits n = [digit (n div 10), digit (n mod 10)]"
  by (simp add: digits_large digits_small)

lemma digits4:
  assumes "1000 \<le> n" "n < 10000"
  shows "digits n = [digit (n div 1000), digit (n div 100 mod 10), digit (n div 10 mod 10),
     digit (n mod 10)]"
proof -
  have a: "10 \<le> n" "10 \<le> n div 10" "10 \<le> n div 10 div 10" "n div 10 div 10 div 10 < 10"
    using assms by simp_all
  have b: "n div 10 div 10 div 10 = n div 1000" "n div 10 div 10 mod 10 = n div 100 mod 10"
    by (simp_all add: zdiv_zmult2_eq[symmetric])
  have "digits n =
      [digit (n div 10 div 10 div 10), digit (n div 10 div 10 mod 10), digit (n div 10 mod 10),
       digit (n mod 10)]"
    using a by (simp add: digits_large digits_small)
  then show ?thesis unfolding b .
qed

lemma pad2_shape:
  assumes "n < 100"
  shows "\<exists>a b. pad2 n = [a, b] \<and> is_digit a \<and> is_digit b"
proof (cases "n < 10")
  case True
  then have "pad2 n = [CHR ''0'', digit (int n)]" by (simp add: pad2_def digits_small)
  moreover have "is_digit (digit (int n))" using True by (intro is_digit_digit) simp_all
  moreover have "is_digit CHR ''0''" by (simp add: is_digit_def)
  ultimately show ?thesis by blast
next
  case False
  with assms have "pad2 n = [digit (int n div 10), digit (int n mod 10)]"
    by (simp add: pad2_def digits2)
  moreover have "is_digit (digit (int n div 10))" using assms by (intro is_digit_digit) simp_all
  moreover have "is_digit (digit (int n mod 10))" by (intro is_digit_digit) simp_all
  ultimately show ?thesis by blast
qed

lemma year_shape:
  assumes "1000 \<le> n" "n \<le> 9999"
  shows "\<exists>a b c d. digits (int n) = [a, b, c, d] \<and> is_digit a \<and> is_digit b \<and> is_digit c \<and>
     is_digit d"
proof -
  from assms have "digits (int n) = [digit (int n div 1000), digit (int n div 100 mod 10),
     digit (int n div 10 mod 10), digit (int n mod 10)]"
    by (intro digits4) simp_all
  moreover have "is_digit (digit (int n div 1000))" using assms by (intro is_digit_digit) simp_all
  moreover have "is_digit (digit (int n div 100 mod 10))" by (intro is_digit_digit) simp_all
  moreover have "is_digit (digit (int n div 10 mod 10))" by (intro is_digit_digit) simp_all
  moreover have "is_digit (digit (int n mod 10))" by (intro is_digit_digit) simp_all
  ultimately show ?thesis by blast
qed

lemma strftime_shape: "wf_datetime t \<Longrightarrow> timestamp_shape (strftime t)"
proof -
  assume wf: "wf_datetime t"
  from wf obtain y1 y2 y3 y4 where y: "digits (int (year t)) = [y1, y2, y3, y4]"
    "is_digit y1" "is_digit y2" "is_digit y3" "is_digit y4"
    using year_shape[of "year t"] by (auto simp: wf_datetime_def)
  from wf obtain m1 m2 where m: "pad2 (month t) = [m1, m2]" "is_digit m1" "is_digit m2"
    using pad2_shape[of "month t"] by (auto simp: wf_datetime_def)
  from wf obtain d1 d2 where d: "pad2 (day t) = [d1, d2]" "is_digit d1" "is_digit d2"
    using pad2_shape[of "day t"] by (auto simp: wf_datetime_def)
  from wf obtain h1 h2 where h: "pad2 (hour t) = [h1, h2]" "is_digit h1" "is_digit h2"
    using pad2_shape[of "hour t"] by (auto simp: wf_datetime_def)
  from wf obtain i1 i2 where i: "pad2 (minute t) = [i1, i2]" "is_digit i1" "is_digit i2"
    using pad2_shape[of "minute t"] by (auto simp: wf_datetime_def)
  from wf obtain s1 s2 where s: "pad2 (second t) = [s1, s2]" "is_digit s1" "is_digit s2"
    using pad2_shape[of "second t"] by (auto simp: wf_datetime_def)
  have "strftime t = [y1, y2, y3, y4, CHR ''-'', m1, m2, CHR ''-'', d1, d2, CHR '' '',
      h1, h2, CHR '':'', i1, i2, CHR '':'', s1, s2]"
    by (simp add: strftime_def y(1) m(1) d(1) h(1) i(1) s(1))
  with y m d h i s show ?thesis by (simp add: timestamp_shape_def)
qed

lemma history_line_entry: "has_2f (amount t) \<Longrightarrow> history_line t = Inr (entry t)"
  by (auto simp: history_line_def entry_def amount_text_def dest!: has_2f_format)

lemma history_loop_entries:
  "\<forall>t \<in> set ts. has_2f (amount t) \<Longrightarrow>
     history_loop acc ts = Inr (acc @ concat (map entry ts))"
  by (induction ts arbitrary: acc) (simp_all add: history_line_entry)

lemma amount_text_props:
  assumes "has_2f (amount t)"
  shows "format_2f (amount t) = Inr (amount_text t)" "two_decimals (amount_text t)"
    "num_lt (amount t) (NInt 0) \<Longrightarrow> hd (amount_text t) = CHR ''-''"
proof -
  from has_2f_format[OF assms] obtain s where s: "format_2f (amount t) = Inr s" "two_decimals s"
    by blast
  then show "format_2f (amount t) = Inr (amount_text t)" "two_decimals (amount_text t)"
    by (simp_all add: amount_text_def)
  assume neg: "num_lt (amount t) (NInt 0)"
  from s(1) obtain f where f: "to_float (amount t) = Inr f" "s = format_float_2f f"
    by (auto simp: format_2f_def split: sum.splits)
  from float_sign[OF f(1) neg] f(2) s(1) show "hd (amount_text t) = CHR ''-''"
    by (simp add: amount_text_def)
qed

lemma replicate_numeral: "replicate (numeral k) x = x # replicate (pred_numeral k) x"
  by (simp add: numeral_eq_Suc)

section \<open>The account under sequences of calls\<close>

lemma add_all_snoc:
  "add_all s (xs @ [x]) = (case add_all s xs of Inl e \<Rightarrow> Inl e | Inr t \<Rightarrow> num_add t x)"
  by (induction xs arbitrary: s) (auto split: sum.splits)

lemma deposit_cases:
  "deposit acct v now = (r, acct') \<Longrightarrow>
     acct' = acct \<or>
     (\<exists>a b. v = Num a \<and> \<not> num_le a (NInt 0) \<and> num_add (balance acct) a = Inr b \<and>
        acct' = acct\<lparr>balance := b,
          transactions := transactions acct @ [\<lparr>timestamp = now, type = ''Deposit'', amount = a\<rparr>]\<rparr>)"
  by (auto simp: deposit_def add_transaction_def Let_def
      split: pyval.splits if_splits sum.splits)

lemma withdraw_cases:
  "withdraw acct v now = (r, acct') \<Longrightarrow>
     acct' = acct \<or>
     (\<exists>a b. v = Num a \<and> \<not> num_le a (NInt 0) \<and> \<not> num_gt a (balance acct) \<and>
        num_sub (balance acct) a = Inr b \<and>
        acct' = acct\<lparr>balance := b,
          transactions := transactions acct @
            [\<lparr>timestamp = now, type = ''Withdrawal'', amount = num_neg a\<rparr>]\<rparr>)"
  by (auto simp: withdraw_def add_transaction_def Let_def
      split: pyval.splits if_splits sum.splits)

lemma account_step_inv:
  assumes inv: "account_inv start a" and wf: "wf_call c"
  shows "account_inv start (snd (account_step a c))"
proof (cases c)
  case (Deposit v t)
  obtain r a' where d: "deposit a v t = (r, a')" by (cases "deposit a v t")
  from deposit_cases[OF d] show ?thesis
  proof
    assume "a' = a"
    with inv d Deposit show ?thesis by simp
  next
    assume "\<exists>x b. v = Num x \<and> \<not> num_le x (NInt 0) \<and> num_add (balance a) x = Inr b \<and>
        a' = a\<lparr>balance := b,
          transactions := transactions a @ [\<lparr>timestamp = t, type = ''Deposit'', amount = x\<rparr>]\<rparr>"
    then obtain x b where x: "v = Num x" "\<not> num_le x (NInt 0)" "num_add (balance a) x = Inr b"
      and a': "a' = a\<lparr>balance := b,
          transactions := transactions a @ [\<lparr>timestamp = t, type = ''Deposit'', amount = x\<rparr>]\<rparr>"
      by blast
    from wf Deposit x(1) have wx: "wf_number x" by simp
    from inv have i: "wf_number (balance a)" "\<not> num_lt (balance a) (NInt 0)"
      "add_all start (map amount (transactions a)) = Inr (balance a)"
      by (simp_all add: account_inv_def)
    have "wf_number b" using i(1) wx x(3) by (rule wf_num_add)
    moreover have "\<not> num_lt b (NInt 0)" using x(2) i(2) x(3) by (rule deposit_balance_nonneg)
    ultimately show ?thesis using d Deposit a' i(3) x(3)
      by (simp add: account_inv_def add_all_snoc)
  qed
next
  case (Withdraw v t)
  obtain r a' where d: "withdraw a v t = (r, a')" by (cases "withdraw a v t")
  from withdraw_cases[OF d] show ?thesis
  proof
    assume "a' = a"
    with inv d Withdraw show ?thesis by simp
  next
    assume "\<exists>x b. v = Num x \<and> \<not> num_le x (NInt 0) \<and> \<not> num_gt x (balance a) \<and>
        num_sub (balance a) x = Inr b \<and>
        a' = a\<lparr>balance := b,
          transactions := transactions a @
            [\<lparr>timestamp = t, type = ''Withdrawal'', amount = num_neg x\<rparr>]\<rparr>"
    then obtain x b where x: "v = Num x" "\<not> num_le x (NInt 0)" "\<not> num_gt x (balance a)"
        "num_sub (balance a) x = Inr b"
      and a': "a' = a\<lparr>balance := b,
          transactions := transactions a @
            [\<lparr>timestamp = t, type = ''Withdrawal'', amount = num_neg x\<rparr>]\<rparr>"
      by blast
    from wf Withdraw x(1) have wx: "wf_number x" by simp
    from inv have i: "wf_number (balance a)" "\<not> num_lt (balance a) (NInt 0)"
      "add_all start (map amount (transactions a)) = Inr (balance a)"
      by (simp_all add: account_inv_def)
    have "wf_number b" using i(1) wx x(4) by (rule wf_num_sub)
    moreover have "\<not> num_lt b (NInt 0)" using wx i(1) x(2) x(3) x(4)
      by (rule withdraw_balance_nonneg)
    moreover have "num_add (balance a) (num_neg x) = Inr b"
      using num_sub_as_add[OF x(2), of "balance a"] x(4) by simp
    ultimately show ?thesis using d Withdraw a' i(3)
      by (simp add: account_inv_def add_all_snoc)
  qed
qed

lemma run_account_inv:
  "account_inv start a \<Longrightarrow> \<forall>c \<in> set cs. wf_call c \<Longrightarrow> account_inv start (run_account a cs)"
proof (induction cs arbitrary: a)
  case Nil
  then show ?case by simp
next
  case (Cons c cs)
  from Cons.prems have "account_inv start (snd (account_step a c))"
    by (intro account_step_inv) simp_all
  with Cons show ?case by simp
qed

lemma BankAccount_init_inv:
  assumes "BankAccount_init holder v acc_type uuid today = Inr a0" "wf_pyval v"
  shows "v = Num (balance a0) \<and> transactions a0 = [] \<and> account_inv (balance a0) a0"
  using assms
  by (auto simp: BankAccount_init_def account_inv_def split: pyval.splits if_splits)

lemma exact_total_snoc:
  "exact_total s (xs @ [x]) =
     (case (exact_value x, exact_total s xs) of (Some v, Some t) \<Rightarrow> Some (t + v) | _ \<Rightarrow> None)"
  by (induction xs) (auto split: option.splits)

lemma is_integer_value:
  "is_integer x \<Longrightarrow> \<exists>i. int_value x = Some i \<and> exact_value x = Some (of_int i)"
  by (cases x) auto

lemma account_step_integer_inv:
  assumes inv: "integer_inv start a" and arg: "integer_arg (call_arg c)"
  shows "integer_inv start (snd (account_step a c))"
proof -
  from inv obtain r where r: "is_integer (balance a)" "exact_value (balance a) = Some r"
    "exact_total start (map amount (transactions a)) = Some r"
    by (auto simp: integer_inv_def)
  from is_integer_value[OF r(1)] r(2) obtain j where j: "int_value (balance a) = Some j"
    "r = of_int j" by auto
  show ?thesis
  proof (cases c)
    case (Deposit v t)
    obtain res a' where d: "deposit a v t = (res, a')" by (cases "deposit a v t")
    from deposit_cases[OF d] show ?thesis
    proof
      assume "a' = a"
      with inv d Deposit show ?thesis by simp
    next
      assume "\<exists>x b. v = Num x \<and> \<not> num_le x (NInt 0) \<and> num_add (balance a) x = Inr b \<and>
        a' = a\<lparr>balance := b,
          transactions := transactions a @ [\<lparr>timestamp = t, type = ''Deposit'', amount = x\<rparr>]\<rparr>"
      then obtain x b where x: "v = Num x" "num_add (balance a) x = Inr b"
        and a': "a' = a\<lparr>balance := b,
          transactions := transactions a @ [\<lparr>timestamp = t, type = ''Deposit'', amount = x\<rparr>]\<rparr>"
        by blast
      from arg Deposit x(1) have "is_integer x" by simp
      from is_integer_value[OF this] obtain i where i: "int_value x = Some i"
        "exact_value x = Some (of_int i)" by auto
      from x(2) i(1) j(1) have "b = NInt (j + i)" by (simp add: num_add_def)
      with d Deposit a' r(3) i(2) j(2) show ?thesis
        by (simp add: integer_inv_def exact_total_snoc)
    qed
  next
    case (Withdraw v t)
    obtain res a' where d: "withdraw a v t = (res, a')" by (cases "withdraw a v t")
    from withdraw_cases[OF d] show ?thesis
    proof
      assume "a' = a"
      with inv d Withdraw show ?thesis by simp
    next
      assume "\<exists>x b. v = Num x \<and> \<not> num_le x (NInt 0) \<and> \<not> num_gt x (balance a) \<and>
        num_sub (balance a) x = Inr b \<and>
        a' = a\<lparr>balance := b,
          transactions := transactions a @
            [\<lparr>timestamp = t, type = ''Withdrawal'', amount = num_neg x\<rparr>]\<rparr>"
      then obtain x b where x: "v = Num x" "num_sub (balance a) x = Inr b"
        and a': "a' = a\<lparr>balance := b,
          transactions := transactions a @
            [\<lparr>timestamp = t, type = ''Withdrawal'', amount = num_neg x\<rparr>]\<rparr>"
        by blast
      from arg Withdraw x(1) have "is_integer x" by simp
      from is_integer_value[OF this] obtain i where i: "int_value x = Some i"
        "exact_value x = Some (of_int i)" by auto
      from i(1) have n: "exact_value (num_neg x) = Some (- of_int i)"
        by (cases x) (auto split: if_splits)
      from x(2) i(1) j(1) have "b = NInt (j - i)" by (simp add: num_sub_def)
      with d Withdraw a' r(3) n j(2) show ?thesis
        by (simp add: integer_inv_def exact_total_snoc)
    qed
  qed
qed

lemma run_account_integer_inv:
  "integer_inv start a \<Longrightarrow> \<forall>c \<in> set cs. integer_arg (call_arg c) \<Longrightarrow>
     integer_inv start (run_account a cs)"
proof (induction cs arbitrary: a)
  case Nil
  then show ?case by simp
next
  case (Cons c cs)
  from Cons.prems have "integer_inv start (snd (account_step a c))"
    by (intro account_step_integer_inv) simp_all
  with Cons show ?case by simp
qed

lemma num_le_not_gt: "num_le a b \<Longrightarrow> \<not> num_gt a b"
  by (cases "ext_of a"; cases "ext_of b") (auto simp: num_le_def num_gt_def num_lt_def)

lemma has_2f_to_float: "has_2f x \<Longrightarrow> \<exists>f. to_float x = Inr f \<and> finite_float f"
  by (auto simp: has_2f_def split: sum.splits)

lemma num_add_total: "has_2f x \<Longrightarrow> has_2f y \<Longrightarrow> \<exists>z. num_add x y = Inr z"
  by (auto simp: num_add_def float_op_def dest!: has_2f_to_float split: option.splits)

lemma num_sub_total: "has_2f x \<Longrightarrow> has_2f y \<Longrightarrow> \<exists>z. num_sub x y = Inr z"
  by (auto simp: num_sub_def float_op_def dest!: has_2f_to_float split: option.splits)

lemma int_to_float_finite:
  "round_mag \<bar>i * fscale\<bar> < fmax \<Longrightarrow> \<exists>n. int_to_float i = Inr (Finite n)"
  by (simp add: int_to_float_def fl_round_cases)

lemma int_to_float_bound: "int_to_float i = Inr f \<Longrightarrow> round_mag \<bar>i * fscale\<bar> < fmax"
  by (auto simp: int_to_float_def fl_round_cases split: if_splits)

lemma has_2f_int: "int_value x = Some i \<Longrightarrow> has_2f x \<longleftrightarrow> round_mag \<bar>i * fscale\<bar> < fmax"
proof -
  assume "int_value x = Some i"
  from int_like[OF this] have t: "to_float x = int_to_float i" by simp
  show ?thesis
  proof
    assume "has_2f x"
    from has_2f_to_float[OF this] t show "round_mag \<bar>i * fscale\<bar> < fmax"
      by (auto dest: int_to_float_bound)
  next
    assume "round_mag \<bar>i * fscale\<bar> < fmax"
    from int_to_float_finite[OF this] t show "has_2f x" by (auto simp: has_2f_def)
  qed
qed

lemma fl_sub_finite:
  assumes fin: "finite_float fa" "finite_float fb" and dbl: "is_double fb"
    and pos: "\<not> ext_le (ext_of (NFloat fa)) (EFin 0)"
    and le: "\<not> ext_lt (ext_of (NFloat fb)) (ext_of (NFloat fa))"
  shows "finite_float (fl_sub fb fa)"
proof -
  from fin(1) pos obtain na where na: "fa = Finite na" "0 < na" by (cases fa) auto
  from fin(2) le na obtain nb where nb: "fb = Finite nb" "na \<le> nb" by (cases fb) auto
  from dbl nb na have d: "2 ^ (bit_length nb - 53) dvd nb" "nb < fmax"
    by (simp_all add: is_double_def)
  from na nb have "\<bar>nb - na\<bar> \<le> nb" by simp
  with d(1) have "round_mag \<bar>nb - na\<bar> \<le> nb" by (rule round_mag_le_double)
  with d(2) have "round_mag \<bar>nb - na\<bar> < fmax" by simp
  with na nb show ?thesis by (simp add: fl_sub_def fl_round_cases)
qed

lemma withdraw_has_2f:
  assumes wf: "wf_number a" "wf_number b"
    and fmt: "has_2f a" "has_2f b"
    and pos: "\<not> num_le a (NInt 0)" and le: "\<not> num_gt a b"
    and sub: "num_sub b a = Inr b'"
  shows "has_2f b'"
proof (cases "int_value a = None \<or> int_value b = None")
  case False
  then obtain i j where ij: "int_value a = Some i" "int_value b = Some j" by auto
  from int_like[OF ij(1)] int_like[OF ij(2)] le pos have r: "0 < i" "i \<le> j"
    by (simp_all add: num_gt_def num_lt_def num_le_def)
  from sub ij have b': "b' = NInt (j - i)" by (simp add: num_sub_def)
  from fmt(2) ij(2) have "round_mag \<bar>j * fscale\<bar> < fmax" by (simp add: has_2f_int)
  moreover from r have "\<bar>(j - i) * fscale\<bar> \<le> \<bar>j * fscale\<bar>" by (simp add: abs_mult)
  then have "round_mag \<bar>(j - i) * fscale\<bar> \<le> round_mag \<bar>j * fscale\<bar>"
    by (intro round_mag_mono) simp_all
  ultimately have "round_mag \<bar>(j - i) * fscale\<bar> < fmax" by simp
  then show ?thesis unfolding b' by (subst has_2f_int[of _ "j - i"]) simp_all
next
  case True
  with sub have "float_op fl_sub b a = Inr b'"
    by (auto simp: num_sub_def split: option.splits)
  then obtain fa fb where f: "to_float a = Inr fa" "to_float b = Inr fb"
    and b': "b' = NFloat (fl_sub fb fa)"
    by (auto simp: float_op_def split: sum.splits)
  from has_2f_to_float[OF fmt(1)] has_2f_to_float[OF fmt(2)] f
  have fin: "finite_float fa" "finite_float fb" by simp_all
  from wf(2) f(2) have dbl: "is_double fb" by (rule is_double_to_float)
  from f(1) pos have p: "\<not> ext_le (ext_of (NFloat fa)) (EFin 0)" by (rule to_float_pos)
  from wf f True le have l: "\<not> ext_lt (ext_of (NFloat fb)) (ext_of (NFloat fa))"
    by (rule to_float_not_gt)
  from fin dbl p l have "finite_float (fl_sub fb fa)" by (rule fl_sub_finite)
  with b' show ?thesis by (simp add: has_2f_def)
qed

section \<open>Errors of the account operations\<close>

lemma ext_of_zero [simp]: "ext_of (NInt 0) = EFin 0"
  by simp

lemma num_gt_zero_not_le: "num_gt a (NInt 0) \<Longrightarrow> \<not> num_le a (NInt 0)"
  by (cases "ext_of a") (auto simp: num_gt_def num_lt_def num_le_def)


text \<open>
  C4. For every account and every number \<open>a\<close> (integer, boolean or float) with
  \<open>a > balance\<close> and \<open>a > 0\<close>, \<open>withdraw(a)\<close> raises
  \<open>ValueError("Insufficient funds.")\<close>, the code's InsufficientFunds, and leaves the
  account, its balance and its transaction log included, as it was.
\<close>

theorem withdraw_insufficient_funds:
  assumes "num_gt a (balance acct)" and "num_gt a (NInt 0)"
  shows "withdraw acct (Num a) now = (Inl (ValueError ''Insufficient funds.''), acct)"
  using assms num_gt_zero_not_le[of a] by (simp add: withdraw_def)

theorem withdraw_insufficient_funds_witness:
  "num_gt (NFloat (whole 1000)) (balance ex_account) \<and>
   num_gt (NFloat (whole 1000)) (NInt 0) \<and>
   withdraw ex_account (Num (NFloat (whole 1000))) ex_now =
     (Inl (ValueError ''Insufficient funds.''), ex_account)"
proof -
  have h1: "num_gt (NFloat (whole 1000)) (balance ex_account)"
    by (simp add: num_gt_def num_lt_def ex_account_def)
  have h2: "num_gt (NFloat (whole 1000)) (NInt 0)"
    by (simp add: num_gt_def num_lt_def)
  from withdraw_insufficient_funds[OF h1 h2] h1 h2 show ?thesis by simp
qed

text \<open>
  C5, as amended. A deposit or withdrawal whose amount is not a number raises
  TypeError, one whose amount is a number \<open>a \<le> 0\<close> raises ValueError with the
  "must be positive" message, and both leave the account as it was. A construction
  whose initial balance is not a number raises TypeError, one whose initial balance is
  a number \<open>a < 0\<close> raises ValueError, and no account is returned. Against the
  error that a withdrawal of more than the balance raises on the same account,
  \<open>ValueError("Insufficient funds.")\<close>: the TypeErrors differ from it by their
  class; the ValueErrors are of the same class and differ from it by their message
  only.
\<close>

theorem invalid_argument:
  "(\<not> is_number v \<longrightarrow>
      deposit acct v now = (Inl (TypeError ''Deposit amount must be a number.''), acct) \<and>
      withdraw acct v now = (Inl (TypeError ''Withdrawal amount must be a number.''), acct) \<and>
      BankAccount_init holder v acc_type uuid today =
        Inl (TypeError ''Initial balance must be a number.'')) \<and>
   (num_le a (NInt 0) \<longrightarrow>
      deposit acct (Num a) now = (Inl (ValueError ''Deposit amount must be positive.''), acct) \<and>
      withdraw acct (Num a) now =
        (Inl (ValueError ''Withdrawal amount must be positive.''), acct)) \<and>
   (num_lt a (NInt 0) \<longrightarrow>
      BankAccount_init holder (Num a) acc_type uuid today =
        Inl (ValueError ''Initial balance cannot be negative.'')) \<and>
   (num_gt b (balance acct) \<and> num_gt b (NInt 0) \<longrightarrow>
      raised (fst (withdraw acct (Num b) now)) = Some (ValueError ''Insufficient funds.'') \<and>
      (\<not> is_number v \<longrightarrow>
         map_option error_class (raised (fst (deposit acct v now))) \<noteq>
           map_option error_class (raised (fst (withdraw acct (Num b) now))) \<and>
         map_option error_class (raised (fst (withdraw acct v now))) \<noteq>
           map_option error_class (raised (fst (withdraw acct (Num b) now))) \<and>
         map_option error_class (raised (BankAccount_init holder v acc_type uuid today)) \<noteq>
           map_option error_class (raised (fst (withdraw acct (Num b) now)))) \<and>
      (num_le a (NInt 0) \<longrightarrow>
         map_option error_class (raised (fst (deposit acct (Num a) now))) =
           map_option error_class (raised (fst (withdraw acct (Num b) now))) \<and>
         map_option error_class (raised (fst (withdraw acct (Num a) now))) =
           map_option error_class (raised (fst (withdraw acct (Num b) now))) \<and>
         map_option error_text (raised (fst (deposit acct (Num a) now))) \<noteq>
           map_option error_text (raised (fst (withdraw acct (Num b) now))) \<and>
         map_option error_text (raised (fst (withdraw acct (Num a) now))) \<noteq>
           map_option error_text (raised (fst (withdraw acct (Num b) now)))) \<and>
      (num_lt a (NInt 0) \<longrightarrow>
         map_option error_class
             (raised (BankAccount_init holder (Num a) acc_type uuid today)) =
           map_option error_class (raised (fst (withdraw acct (Num b) now))) \<and>
         map_option error_text
             (raised (BankAccount_init holder (Num a) acc_type uuid today)) \<noteq>
           map_option error_text (raised (fst (withdraw acct (Num b) now)))))"
proof -
  have t: "deposit acct v now = (Inl (TypeError ''Deposit amount must be a number.''), acct) \<and>
      withdraw acct v now = (Inl (TypeError ''Withdrawal amount must be a number.''), acct) \<and>
      BankAccount_init holder v acc_type uuid today =
        Inl (TypeError ''Initial balance must be a number.'')" if "\<not> is_number v"
    using that by (cases v) (simp_all add: deposit_def withdraw_def BankAccount_init_def)
  have p: "deposit acct (Num a) now =
        (Inl (ValueError ''Deposit amount must be positive.''), acct) \<and>
      withdraw acct (Num a) now =
        (Inl (ValueError ''Withdrawal amount must be positive.''), acct)" if "num_le a (NInt 0)"
    using that by (simp add: deposit_def withdraw_def)
  have n: "BankAccount_init holder (Num a) acc_type uuid today =
        Inl (ValueError ''Initial balance cannot be negative.'')" if "num_lt a (NInt 0)"
    using that by (simp add: BankAccount_init_def)
  have i: "withdraw acct (Num b) now = (Inl (ValueError ''Insufficient funds.''), acct)"
    if "num_gt b (balance acct) \<and> num_gt b (NInt 0)"
    using that num_gt_zero_not_le[of b] by (simp add: withdraw_def)
  show ?thesis
  proof (intro conjI impI)
    assume "num_gt b (balance acct) \<and> num_gt b (NInt 0)"
    from i[OF this]
    show "raised (fst (withdraw acct (Num b) now)) = Some (ValueError ''Insufficient funds.'')"
      by simp
  qed (use t p n i in simp_all)
qed

theorem invalid_argument_witness:
  "\<not> is_number (PStr ''ten'') \<and>
   deposit ex_account (PStr ''ten'') ex_now =
     (Inl (TypeError ''Deposit amount must be a number.''), ex_account) \<and>
   withdraw ex_account (PStr ''ten'') ex_now =
     (Inl (TypeError ''Withdrawal amount must be a number.''), ex_account) \<and>
   BankAccount_init ''Bob'' (PStr ''ten'') ''Savings'' ''acc-2'' ex_today =
     Inl (TypeError ''Initial balance must be a number.'') \<and>
   num_le (NFloat (whole (- 5))) (NInt 0) \<and>
   deposit ex_account (Num (NFloat (whole (- 5)))) ex_now =
     (Inl (ValueError ''Deposit amount must be positive.''), ex_account) \<and>
   withdraw ex_account (Num (NFloat (whole (- 5)))) ex_now =
     (Inl (ValueError ''Withdrawal amount must be positive.''), ex_account) \<and>
   num_lt (NFloat (whole (- 5))) (NInt 0) \<and>
   BankAccount_init ''Bob'' (Num (NFloat (whole (- 5)))) ''Savings'' ''acc-2'' ex_today =
     Inl (ValueError ''Initial balance cannot be negative.'') \<and>
   num_gt (NFloat (whole 1000)) (balance ex_account) \<and>
   num_gt (NFloat (whole 1000)) (NInt 0) \<and>
   raised (fst (withdraw ex_account (Num (NFloat (whole 1000))) ex_now)) =
     Some (ValueError ''Insufficient funds.'') \<and>
   map_option error_class (raised (fst (withdraw ex_account (PStr ''ten'') ex_now))) =
     Some TypeErrorClass \<and>
   map_option error_class
     (raised (fst (withdraw ex_account (Num (NFloat (whole (- 5)))) ex_now))) =
     Some ValueErrorClass \<and>
   map_option error_class
     (raised (fst (withdraw ex_account (Num (NFloat (whole 1000))) ex_now))) =
     Some ValueErrorClass"
proof -
  have h1: "\<not> is_number (PStr ''ten'')" by simp
  have h2: "num_le (NFloat (whole (- 5))) (NInt 0)" by (simp add: num_le_def)
  have h3: "num_lt (NFloat (whole (- 5))) (NInt 0)" by (simp add: num_lt_def)
  have h4: "num_gt (NFloat (whole 1000)) (balance ex_account)"
    by (simp add: num_gt_def num_lt_def ex_account_def)
  have h5: "num_gt (NFloat (whole 1000)) (NInt 0)" by (simp add: num_gt_def num_lt_def)
  from invalid_argument[of "PStr ''ten''" ex_account ex_now "''Bob''" "''Savings''" "''acc-2''"
      ex_today "NFloat (whole (- 5))" "NFloat (whole 1000)"] h1 h2 h3 h4 h5
  show ?thesis by simp
qed

text \<open>
  The claim as it stands fails on the error kind. On
  \<open>BankAccount("Alice", 120.0)\<close> the call \<open>withdraw(-5.0)\<close>, an invalid
  argument, and the call \<open>withdraw(1000.0)\<close>, a lack of funds, both raise
  ValueError: the two errors are of one class, and only their messages tell them
  apart.
\<close>

theorem invalid_argument_kind_counterexample:
  "num_le (NFloat (whole (- 5))) (NInt 0) \<and>
   num_gt (NFloat (whole 1000)) (balance ex_account) \<and>
   num_gt (NFloat (whole 1000)) (NInt 0) \<and>
   withdraw ex_account (Num (NFloat (whole (- 5)))) ex_now =
     (Inl (ValueError ''Withdrawal amount must be positive.''), ex_account) \<and>
   withdraw ex_account (Num (NFloat (whole 1000))) ex_now =
     (Inl (ValueError ''Insufficient funds.''), ex_account) \<and>
   map_option error_class
     (raised (fst (withdraw ex_account (Num (NFloat (whole (- 5)))) ex_now))) =
   map_option error_class
     (raised (fst (withdraw ex_account (Num (NFloat (whole 1000))) ex_now))) \<and>
   map_option error_class
     (raised (fst (deposit ex_account (Num (NFloat (whole (- 5)))) ex_now))) =
   map_option error_class
     (raised (fst (withdraw ex_account (Num (NFloat (whole 1000))) ex_now))) \<and>
   map_option error_class
     (raised (BankAccount_init ''Bob'' (Num (NFloat (whole (- 5)))) ''Savings'' ''acc-2''
        ex_today)) =
   map_option error_class
     (raised (fst (withdraw ex_account (Num (NFloat (whole 1000))) ex_now)))"
  by (simp add: withdraw_def deposit_def BankAccount_init_def num_le_def num_lt_def num_gt_def
      ex_account_def)

section \<open>The ledger\<close>


lemma BankAccount_init_number:
  "BankAccount_init holder v acc_type uuid today = Inr a \<Longrightarrow> account_number a = uuid"
  by (auto simp: BankAccount_init_def split: pyval.splits if_splits)

lemma ledger_step_absent:
  "accounts s k = None \<Longrightarrow> \<not> inserts c k \<Longrightarrow> accounts (ledger_step s c) k = None"
proof (cases c)
  case (Create holder v acc_type uuid today)
  assume abs: "accounts s k = None" and ni: "\<not> inserts c k"
  show ?thesis
  proof (cases "BankAccount_init holder v acc_type uuid today")
    case (Inl e)
    with Create abs show ?thesis
      by (cases e) (simp_all add: create_account_def)
  next
    case (Inr a)
    then have "account_number a = uuid" by (rule BankAccount_init_number)
    moreover from Inr Create ni have "uuid \<noteq> k" by simp
    ultimately show ?thesis using Create abs Inr
      by (simp add: create_account_def)
  qed
next
  case (Lookup n)
  assume "accounts s k = None"
  with Lookup show ?thesis by (simp add: get_account_def)
next
  case (Delete n)
  assume "accounts s k = None"
  with Delete show ?thesis by (simp add: delete_account_def)
next
  case (OnAccount n ac)
  assume "accounts s k = None"
  with OnAccount show ?thesis
    by (auto simp: on_account_def get_account_def split: option.splits)
qed

lemma run_ledger_absent:
  "accounts s k = None \<Longrightarrow> \<forall>c \<in> set cs. \<not> inserts c k \<Longrightarrow> accounts (run_ledger s cs) k = None"
proof (induction cs arbitrary: s)
  case Nil
  then show ?case by simp
next
  case (Cons c cs)
  from Cons.prems have "accounts (ledger_step s c) k = None"
    by (simp add: ledger_step_absent)
  with Cons show ?case by simp
qed

text \<open>
  C7. \<open>get_account\<close> on an identifier the ledger does not hold returns None, the
  absent value, and no exception; so it does on every identifier that no call of a
  run from the empty ledger inserted. The lookup leaves the ledger as it was.
\<close>

theorem get_account_unknown:
  "(accounts s k = None \<longrightarrow> get_account s k = (None, s)) \<and>
   ((\<forall>c \<in> set cs. \<not> inserts c k) \<longrightarrow>
      get_account (run_ledger BankingSystem_init cs) k = (None, run_ledger BankingSystem_init cs)) \<and>
   snd (get_account s k) = s"
proof (intro conjI impI)
  assume "\<forall>c \<in> set cs. \<not> inserts c k"
  then have "accounts (run_ledger BankingSystem_init cs) k = None"
    by (intro run_ledger_absent) (simp_all add: BankingSystem_init_def)
  then show "get_account (run_ledger BankingSystem_init cs) k = (None, run_ledger BankingSystem_init cs)"
    by (simp add: get_account_def)
qed (simp_all add: get_account_def)

text \<open>
  C8. \<open>delete_account\<close> on an identifier the ledger holds returns the success
  message that names it and removes the account: \<open>get_account\<close> on it then gives
  None, and a second delete returns the not-found message. On an identifier the
  ledger does not hold it returns the not-found message.
\<close>

theorem delete_account_result:
  "(k \<in> dom (accounts s) \<longrightarrow>
      fst (delete_account s k) = ''Account '' @ k @ '' deleted successfully.'' \<and>
      fst (get_account (snd (delete_account s k)) k) = None \<and>
      delete_account (snd (delete_account s k)) k =
        (''Account '' @ k @ '' not found.'', snd (delete_account s k))) \<and>
   (k \<notin> dom (accounts s) \<longrightarrow>
      delete_account s k = (''Account '' @ k @ '' not found.'', s))"
  by (auto simp: delete_account_def get_account_def)

text \<open>
  C10. \<open>delete_account\<close> leaves the entry of every other identifier as it was,
  the account with its balance and its transaction log; on an identifier the ledger
  does not hold, it leaves the whole ledger as it was.
\<close>

theorem delete_account_frame:
  "(k' \<noteq> k \<longrightarrow> accounts (snd (delete_account s k)) k' = accounts s k') \<and>
   (k \<notin> dom (accounts s) \<longrightarrow> snd (delete_account s k) = s)"
  by (auto simp: delete_account_def)



theorem get_account_unknown_witness:
  "accounts ex_ledger ''acc-9'' = None \<and>
   get_account ex_ledger ''acc-9'' = (None, ex_ledger) \<and>
   list_all (\<lambda>c. \<not> inserts c ''acc-2'')
     [Create ''Alice'' (Num (NInt 100)) ''Savings'' ''acc-1'' ex_today,
      Create ''Bob'' (Num (NInt (- 1))) ''Savings'' ''acc-2'' ex_today,
      OnAccount ''acc-1'' (Deposit (Num (NInt 50)) ex_now), Delete ''acc-1''] \<and>
   fst (get_account
     (run_ledger BankingSystem_init
        [Create ''Alice'' (Num (NInt 100)) ''Savings'' ''acc-1'' ex_today,
         Create ''Bob'' (Num (NInt (- 1))) ''Savings'' ''acc-2'' ex_today,
         OnAccount ''acc-1'' (Deposit (Num (NInt 50)) ex_now), Delete ''acc-1''])
     ''acc-2'') = None"
proof -
  let ?cs = "[Create ''Alice'' (Num (NInt 100)) ''Savings'' ''acc-1'' ex_today,
      Create ''Bob'' (Num (NInt (- 1))) ''Savings'' ''acc-2'' ex_today,
      OnAccount ''acc-1'' (Deposit (Num (NInt 50)) ex_now), Delete ''acc-1'']"
  have h1: "accounts ex_ledger ''acc-9'' = None" by (simp add: ex_ledger_def)
  have h2: "\<forall>c \<in> set ?cs. \<not> inserts c ''acc-2''"
    by (simp add: BankAccount_init_def num_lt_def)
  from get_account_unknown[of ex_ledger "''acc-9''" ?cs] h1
  have a: "get_account ex_ledger ''acc-9'' = (None, ex_ledger)" by simp
  from get_account_unknown[of ex_ledger "''acc-2''" ?cs] h2
  have b: "fst (get_account (run_ledger BankingSystem_init ?cs) ''acc-2'') = None" by simp
  from h2 have c: "list_all (\<lambda>c. \<not> inserts c ''acc-2'') ?cs" by (simp only: list_all_iff)
  from h1 a b c show ?thesis by blast
qed

theorem delete_account_result_witness:
  "''acc-1'' \<in> dom (accounts ex_ledger) \<and>
   fst (delete_account ex_ledger ''acc-1'') = ''Account acc-1 deleted successfully.'' \<and>
   fst (get_account (snd (delete_account ex_ledger ''acc-1'')) ''acc-1'') = None \<and>
   fst (delete_account (snd (delete_account ex_ledger ''acc-1'')) ''acc-1'') =
     ''Account acc-1 not found.'' \<and>
   ''acc-9'' \<notin> dom (accounts ex_ledger) \<and>
   delete_account ex_ledger ''acc-9'' = (''Account acc-9 not found.'', ex_ledger)"
proof -
  have h1: "''acc-1'' \<in> dom (accounts ex_ledger)" by (simp add: ex_ledger_def)
  have h2: "''acc-9'' \<notin> dom (accounts ex_ledger)" by (simp add: ex_ledger_def)
  from delete_account_result[of "''acc-1''" ex_ledger] h1
    delete_account_result[of "''acc-9''" ex_ledger] h2
  show ?thesis by simp
qed

theorem delete_account_frame_witness:
  "''acc-1'' \<noteq> ''acc-9'' \<and>
   accounts (snd (delete_account ex_ledger ''acc-9'')) ''acc-1'' = Some ex_account \<and>
   ''acc-9'' \<notin> dom (accounts ex_ledger) \<and>
   snd (delete_account ex_ledger ''acc-9'') = ex_ledger \<and>
   ''acc-1'' \<noteq> ''acc-2'' \<and>
   accounts
     (snd (delete_account
        (ex_ledger\<lparr>accounts := (accounts ex_ledger)(''acc-2'' \<mapsto> ex_account)\<rparr>) ''acc-2''))
     ''acc-1'' = Some ex_account"
proof -
  have h1: "''acc-1'' \<noteq> ''acc-9''" by simp
  have h2: "''acc-9'' \<notin> dom (accounts ex_ledger)" by (simp add: ex_ledger_def)
  have h3: "''acc-1'' \<noteq> ''acc-2''" by simp
  from delete_account_frame[of "''acc-1''" "''acc-9''" ex_ledger] h1 h2
    delete_account_frame[of "''acc-1''" "''acc-2''"
      "ex_ledger\<lparr>accounts := (accounts ex_ledger)(''acc-2'' \<mapsto> ex_account)\<rparr>"] h3
  show ?thesis by (simp add: ex_ledger_def)
qed

section \<open>Balance, deposits and withdrawals\<close>

text \<open>
  C1, as amended. Take an account constructed with a valid initial balance and any
  sequence of deposit and withdrawal calls on it, successful or not, with integers,
  booleans and floats as arguments. Then \<open>balance < 0\<close> is never true, and the
  balance is Python's left-to-right sum of the initial balance and the signed amounts
  of the recorded transactions. When the initial balance and the amounts are all
  integers, this sum is the mathematical one. (With floats each addition rounds, so
  the balance can differ from the mathematical sum: see the counterexample.)
\<close>

theorem balance_invariant:
  assumes init: "BankAccount_init holder v acc_type uuid today = Inr a0"
    and wf: "wf_pyval v" "\<forall>c \<in> set cs. wf_call c"
  shows "v = Num (balance a0) \<and>
     \<not> num_lt (balance (run_account a0 cs)) (NInt 0) \<and>
     add_all (balance a0) (map amount (transactions (run_account a0 cs))) =
       Inr (balance (run_account a0 cs)) \<and>
     (integer_arg v \<and> (\<forall>c \<in> set cs. integer_arg (call_arg c)) \<longrightarrow>
        (\<exists>r. exact_value (balance (run_account a0 cs)) = Some r \<and>
             exact_total (balance a0) (map amount (transactions (run_account a0 cs))) = Some r))"
proof -
  from BankAccount_init_inv[OF init wf(1)] have i: "v = Num (balance a0)" "transactions a0 = []"
    "account_inv (balance a0) a0" by simp_all
  from i(3) wf(2) have "account_inv (balance a0) (run_account a0 cs)" by (rule run_account_inv)
  then have 1: "\<not> num_lt (balance (run_account a0 cs)) (NInt 0)"
    "add_all (balance a0) (map amount (transactions (run_account a0 cs))) =
       Inr (balance (run_account a0 cs))"
    by (simp_all add: account_inv_def)
  have 2: "\<exists>r. exact_value (balance (run_account a0 cs)) = Some r \<and>
             exact_total (balance a0) (map amount (transactions (run_account a0 cs))) = Some r"
    if "integer_arg v" "\<forall>c \<in> set cs. integer_arg (call_arg c)"
  proof -
    from that(1) i(1) have "is_integer (balance a0)" by simp
    with is_integer_value[OF this] i(2) have "integer_inv (balance a0) a0"
      by (auto simp: integer_inv_def)
    from this that(2) have "integer_inv (balance a0) (run_account a0 cs)"
      by (rule run_account_integer_inv)
    then show ?thesis by (simp add: integer_inv_def)
  qed
  from i(1) 1 2 show ?thesis by blast
qed


theorem balance_invariant_witness:
  "BankAccount_init ''Alice'' (Num (NFloat (whole 120))) ''Savings'' ''acc-1'' ex_today =
     Inr ex_account \<and>
   wf_pyval (Num (NFloat (whole 120))) \<and>
   list_all wf_call
     [Deposit (Num (NFloat (whole 50))) ex_now, Withdraw (Num (NFloat (whole 30))) ex_now,
      Withdraw (Num (NFloat (whole 1000))) ex_now] \<and>
   balance (run_account ex_account
     [Deposit (Num (NFloat (whole 50))) ex_now, Withdraw (Num (NFloat (whole 30))) ex_now,
      Withdraw (Num (NFloat (whole 1000))) ex_now]) = NFloat (whole 140) \<and>
   \<not> num_lt (balance (run_account ex_account
     [Deposit (Num (NFloat (whole 50))) ex_now, Withdraw (Num (NFloat (whole 30))) ex_now,
      Withdraw (Num (NFloat (whole 1000))) ex_now])) (NInt 0) \<and>
   add_all (NFloat (whole 120)) [NFloat (whole 50), NFloat (whole (- 30))] =
     Inr (NFloat (whole 140)) \<and>
   BankAccount_init ''Alice'' (Num (NInt 100)) ''Savings'' ''acc-1'' ex_today =
     Inr ex_int_account \<and>
   integer_arg (Num (NInt 100)) \<and>
   list_all (\<lambda>c. integer_arg (call_arg c))
     [Deposit (Num (NInt 50)) ex_now, Withdraw (Num (NInt 30)) ex_now] \<and>
   exact_value (balance (run_account ex_int_account
     [Deposit (Num (NInt 50)) ex_now, Withdraw (Num (NInt 30)) ex_now])) = Some 120 \<and>
   exact_total (NInt 100) [NInt 50, NInt (- 30)] = Some 120"
proof -
  let ?cs = "[Deposit (Num (NFloat (whole 50))) ex_now, Withdraw (Num (NFloat (whole 30))) ex_now,
      Withdraw (Num (NFloat (whole 1000))) ex_now]"
  let ?ics = "[Deposit (Num (NInt 50)) ex_now, Withdraw (Num (NInt 30)) ex_now]"
  have h1: "BankAccount_init ''Alice'' (Num (NFloat (whole 120))) ''Savings'' ''acc-1'' ex_today =
     Inr ex_account"
    by (simp add: BankAccount_init_def num_lt_def ex_account_def)
  have h2: "wf_pyval (Num (NFloat (whole 120)))"
    by (simp add: is_double_whole bit_length.simps)
  have h3: "\<forall>c \<in> set ?cs. wf_call c"
    by (simp add: is_double_whole bit_length.simps)
  have r: "run_account ex_account ?cs =
      ex_account\<lparr>balance := NFloat (whole 140),
        transactions :=
          [\<lparr>timestamp = ex_now, type = ''Deposit'', amount = NFloat (whole 50)\<rparr>,
           \<lparr>timestamp = ex_now, type = ''Withdrawal'', amount = NFloat (whole (- 30))\<rparr>]\<rparr>"
    by (simp add: eval_account ex_account_def)
  have g1: "BankAccount_init ''Alice'' (Num (NInt 100)) ''Savings'' ''acc-1'' ex_today =
     Inr ex_int_account"
    by (simp add: BankAccount_init_def num_lt_def ex_int_account_def)
  have g2: "\<forall>c \<in> set ?ics. wf_call c" by simp
  have g3: "integer_arg (Num (NInt 100)) \<and> (\<forall>c \<in> set ?ics. integer_arg (call_arg c))" by simp
  have ri: "run_account ex_int_account ?ics =
      ex_int_account\<lparr>balance := NInt 120,
        transactions :=
          [\<lparr>timestamp = ex_now, type = ''Deposit'', amount = NInt 50\<rparr>,
           \<lparr>timestamp = ex_now, type = ''Withdrawal'', amount = NInt (- 30)\<rparr>]\<rparr>"
    by (simp add: eval_account ex_int_account_def)
  from balance_invariant[OF h1 h2 h3]
  have a: "\<not> num_lt (balance (run_account ex_account ?cs)) (NInt 0)"
    and b: "add_all (balance ex_account) (map amount (transactions (run_account ex_account ?cs))) =
       Inr (balance (run_account ex_account ?cs))"
    by blast+
  from b have b': "add_all (NFloat (whole 120)) [NFloat (whole 50), NFloat (whole (- 30))] =
     Inr (NFloat (whole 140))"
    unfolding r by (simp add: ex_account_def)
  from balance_invariant[OF g1 _ g2] g3
  obtain q where q: "exact_value (balance (run_account ex_int_account ?ics)) = Some q"
    "exact_total (balance ex_int_account)
       (map amount (transactions (run_account ex_int_account ?ics))) = Some q"
    by auto
  from q(1) have q120: "q = 120" unfolding ri by simp
  from q have c: "exact_value (balance (run_account ex_int_account ?ics)) = Some 120"
    and d: "exact_total (NInt 100) [NInt 50, NInt (- 30)] = Some 120"
    unfolding q120 ri by (simp_all add: ex_int_account_def)
  have e: "balance (run_account ex_account ?cs) = NFloat (whole 140)" unfolding r by simp
  from h3 have h3': "list_all wf_call ?cs" by (simp only: list_all_iff)
  have g3a: "integer_arg (Num (NInt 100))"
    and g3b: "list_all (\<lambda>c. integer_arg (call_arg c)) ?ics"
    by simp_all
  from h1 h2 h3' e a b' g1 g3a g3b c d show ?thesis by blast
qed

text \<open>
  The claim as it stands fails on floats. \<open>BankAccount("Alice", 9007199254740992.0)\<close>
  followed by two successful \<open>deposit(1.0)\<close> has the balance
  \<open>9007199254740992.0\<close>, where the initial balance plus the recorded amounts is
  \<open>9007199254740994\<close>, a sum that the floats can even hold.
\<close>

theorem balance_sum_counterexample:
  "BankAccount_init ''Alice'' (Num (NFloat (whole 9007199254740992))) ''Savings'' ''acc-1''
     ex_today = Inr ex_big_account \<and>
   wf_pyval (Num (NFloat (whole 9007199254740992))) \<and>
   wf_pyval (Num (NFloat (whole 1))) \<and>
   fst (deposit ex_big_account (Num (NFloat (whole 1))) ex_now) =
     Inr ''Deposited $1.00. New balance: $9007199254740992.00'' \<and>
   fst (deposit (snd (deposit ex_big_account (Num (NFloat (whole 1))) ex_now))
          (Num (NFloat (whole 1))) ex_now) =
     Inr ''Deposited $1.00. New balance: $9007199254740992.00'' \<and>
   map amount (transactions (run_account ex_big_account
       [Deposit (Num (NFloat (whole 1))) ex_now, Deposit (Num (NFloat (whole 1))) ex_now])) =
     [NFloat (whole 1), NFloat (whole 1)] \<and>
   exact_value (balance (run_account ex_big_account
       [Deposit (Num (NFloat (whole 1))) ex_now, Deposit (Num (NFloat (whole 1))) ex_now])) =
     Some 9007199254740992 \<and>
   exact_total (NFloat (whole 9007199254740992)) [NFloat (whole 1), NFloat (whole 1)] =
     Some 9007199254740994 \<and>
   num_add (NFloat (whole 9007199254740992)) (NFloat (whole 2)) =
     Inr (NFloat (whole 9007199254740994))"
  by (simp add: eval_account ex_big_account_def)

text \<open>
  C2, as amended. Take a number \<open>a\<close> with \<open>0 < a \<le> balance\<close> and an account
  such that \<open>a\<close> and the balance are finite floats, or integers that convert to
  float. Then \<open>withdraw(a)\<close> sets the balance to Python's \<open>balance - a\<close>, which
  is the exact difference when both are integers and the correctly rounded float
  difference otherwise, appends exactly one Withdrawal transaction with the amount
  \<open>-a\<close>, and returns \<open>Withdrew $A. New balance: $B\<close> with \<open>A\<close> and \<open>B\<close>
  the amount and the new balance with exactly two decimals.
\<close>

theorem withdraw_result:
  assumes pos: "num_gt a (NInt 0)" and le: "num_le a (balance acct)"
    and fmt: "has_2f a" "has_2f (balance acct)"
    and wf: "wf_number a" "wf_number (balance acct)"
  shows "\<exists>b s1 s2. num_sub (balance acct) a = Inr b \<and>
     format_2f a = Inr s1 \<and> two_decimals s1 \<and> format_2f b = Inr s2 \<and> two_decimals s2 \<and>
     withdraw acct (Num a) now =
       (Inr (''Withdrew $'' @ s1 @ ''. New balance: $'' @ s2),
        acct\<lparr>balance := b,
          transactions := transactions acct @
            [\<lparr>timestamp = now, type = ''Withdrawal'', amount = num_neg a\<rparr>]\<rparr>) \<and>
     (\<forall>i j. int_value (balance acct) = Some j \<and> int_value a = Some i \<longrightarrow> b = NInt (j - i)) \<and>
     (\<forall>fb fa. (int_value (balance acct) = None \<or> int_value a = None) \<and>
        to_float (balance acct) = Inr fb \<and> to_float a = Inr fa \<longrightarrow> b = NFloat (fl_sub fb fa))"
proof -
  from num_sub_total[OF fmt(2) fmt(1)] obtain b where diff: "num_sub (balance acct) a = Inr b"
    by blast
  from pos have g: "\<not> num_le a (NInt 0)" by (rule num_gt_zero_not_le)
  from le have g2: "\<not> num_gt a (balance acct)" by (rule num_le_not_gt)
  from wf fmt g g2 diff have "has_2f b" by (rule withdraw_has_2f)
  from has_2f_format[OF this] obtain s2 where s2: "format_2f b = Inr s2" "two_decimals s2"
    by blast
  from has_2f_format[OF fmt(1)] obtain s1 where s1: "format_2f a = Inr s1" "two_decimals s1"
    by blast
  from g g2 diff s1(1) s2(1) have d: "withdraw acct (Num a) now =
       (Inr (''Withdrew $'' @ s1 @ ''. New balance: $'' @ s2),
        acct\<lparr>balance := b,
          transactions := transactions acct @
            [\<lparr>timestamp = now, type = ''Withdrawal'', amount = num_neg a\<rparr>]\<rparr>)"
    by (simp add: withdraw_def add_transaction_def)
  from diff have e1: "\<forall>i j. int_value (balance acct) = Some j \<and> int_value a = Some i \<longrightarrow>
      b = NInt (j - i)"
    by (auto simp: num_sub_def)
  from diff have e2: "\<forall>fb fa. (int_value (balance acct) = None \<or> int_value a = None) \<and>
        to_float (balance acct) = Inr fb \<and> to_float a = Inr fa \<longrightarrow> b = NFloat (fl_sub fb fa)"
    by (auto simp: num_sub_def float_op_def split: option.splits)
  from diff s1 s2 d e1 e2 show ?thesis by blast
qed


theorem withdraw_result_witness:
  "num_gt (NFloat (whole 30)) (NInt 0) \<and> num_le (NFloat (whole 30)) (balance ex_account) \<and>
   has_2f (NFloat (whole 30)) \<and> has_2f (balance ex_account) \<and>
   wf_number (NFloat (whole 30)) \<and> wf_number (balance ex_account) \<and>
   withdraw ex_account (Num (NFloat (whole 30))) ex_now =
     (Inr ''Withdrew $30.00. New balance: $90.00'',
      ex_account\<lparr>balance := NFloat (whole 90),
        transactions :=
          [\<lparr>timestamp = ex_now, type = ''Withdrawal'', amount = NFloat (whole (- 30))\<rparr>]\<rparr>) \<and>
   two_decimals ''30.00'' \<and> two_decimals ''90.00''"
proof -
  have h1: "num_gt (NFloat (whole 30)) (NInt 0)" by (simp add: num_gt_def num_lt_def)
  have h2: "num_le (NFloat (whole 30)) (balance ex_account)"
    by (simp add: num_le_def ex_account_def)
  have h3: "has_2f (NFloat (whole 30))" by (simp add: has_2f_def whole_def)
  have h4: "has_2f (balance ex_account)" by (simp add: has_2f_def whole_def ex_account_def)
  have h5: "wf_number (NFloat (whole 30))" by (simp add: is_double_whole bit_length.simps)
  have h6: "wf_number (balance ex_account)"
    by (simp add: is_double_whole bit_length.simps ex_account_def)
  have s: "num_sub (balance ex_account) (NFloat (whole 30)) = Inr (NFloat (whole 90))"
    by (simp add: eval_account ex_account_def)
  have f1: "format_2f (NFloat (whole 30)) = Inr ''30.00''" by (simp add: eval_account)
  have f2: "format_2f (NFloat (whole 90)) = Inr ''90.00''" by (simp add: eval_account)
  from withdraw_result[OF h1 h2 h3 h4 h5 h6, of ex_now] s f1 f2
  have "withdraw ex_account (Num (NFloat (whole 30))) ex_now =
     (Inr ''Withdrew $30.00. New balance: $90.00'',
      ex_account\<lparr>balance := NFloat (whole 90),
        transactions := transactions ex_account @
          [\<lparr>timestamp = ex_now, type = ''Withdrawal'', amount = num_neg (NFloat (whole 30))\<rparr>]\<rparr>)"
    and "two_decimals ''30.00''" and "two_decimals ''90.00''"
    by auto
  with h1 h2 h3 h4 h5 h6 show ?thesis by (simp add: ex_account_def)
qed

text \<open>
  The claim as it stands fails on floats: on the balance \<open>9007199254740994.0\<close> a
  successful \<open>withdraw(1.0)\<close> takes the balance down by two.
\<close>

theorem withdraw_exact_counterexample:
  "num_gt (NFloat (whole 1)) (NInt 0) \<and> num_le (NFloat (whole 1)) (balance ex_big2_account) \<and>
   wf_number (NFloat (whole 1)) \<and> wf_number (balance ex_big2_account) \<and>
   withdraw ex_big2_account (Num (NFloat (whole 1))) ex_now =
     (Inr ''Withdrew $1.00. New balance: $9007199254740992.00'',
      ex_big2_account\<lparr>balance := NFloat (whole 9007199254740992),
        transactions :=
          [\<lparr>timestamp = ex_now, type = ''Withdrawal'', amount = NFloat (whole (- 1))\<rparr>]\<rparr>) \<and>
   exact_value (balance ex_big2_account) = Some 9007199254740994 \<and>
   exact_value (NFloat (whole 1)) = Some 1 \<and>
   exact_value (balance (snd (withdraw ex_big2_account (Num (NFloat (whole 1))) ex_now))) \<noteq>
     Some (9007199254740994 - 1)"
  by (simp add: eval_account ex_big2_account_def)

text \<open>
  C3, as amended. Take a number \<open>a > 0\<close> and an account such that \<open>a\<close> and the
  balance are finite floats, or integers that convert to float. Then \<open>deposit(a)\<close>
  sets the balance to Python's \<open>balance + a\<close>, which is the exact sum when both
  are integers and the correctly rounded float sum otherwise, and appends exactly one
  Deposit transaction with the amount \<open>a\<close>; and when the new balance is again
  finite and converts to float, it returns \<open>Deposited $A. New balance: $B\<close> with
  \<open>A\<close> and \<open>B\<close> the amount and the new balance with exactly two decimals.
\<close>

theorem deposit_result:
  assumes pos: "num_gt a (NInt 0)" and fmt: "has_2f a" "has_2f (balance acct)"
  shows "\<exists>b. num_add (balance acct) a = Inr b \<and>
     snd (deposit acct (Num a) now) =
       acct\<lparr>balance := b,
         transactions := transactions acct @
           [\<lparr>timestamp = now, type = ''Deposit'', amount = a\<rparr>]\<rparr> \<and>
     (\<forall>i j. int_value (balance acct) = Some j \<and> int_value a = Some i \<longrightarrow> b = NInt (j + i)) \<and>
     (\<forall>fb fa. (int_value (balance acct) = None \<or> int_value a = None) \<and>
        to_float (balance acct) = Inr fb \<and> to_float a = Inr fa \<longrightarrow> b = NFloat (fl_add fb fa)) \<and>
     (has_2f b \<longrightarrow>
        (\<exists>s1 s2. format_2f a = Inr s1 \<and> two_decimals s1 \<and>
           format_2f b = Inr s2 \<and> two_decimals s2 \<and>
           fst (deposit acct (Num a) now) =
             Inr (''Deposited $'' @ s1 @ ''. New balance: $'' @ s2)))"
proof -
  from num_add_total[OF fmt(2) fmt(1)] obtain b where sum: "num_add (balance acct) a = Inr b"
    by blast
  from has_2f_format[OF fmt(1)] obtain s1 where s1: "format_2f a = Inr s1" "two_decimals s1"
    by blast
  from pos have g: "\<not> num_le a (NInt 0)" by (rule num_gt_zero_not_le)
  from g sum s1(1) have st: "snd (deposit acct (Num a) now) =
       acct\<lparr>balance := b,
         transactions := transactions acct @
           [\<lparr>timestamp = now, type = ''Deposit'', amount = a\<rparr>]\<rparr>"
    by (simp add: deposit_def add_transaction_def Let_def split: sum.splits)
  from sum have e1: "\<forall>i j. int_value (balance acct) = Some j \<and> int_value a = Some i \<longrightarrow>
      b = NInt (j + i)"
    by (auto simp: num_add_def)
  from sum have e2: "\<forall>fb fa. (int_value (balance acct) = None \<or> int_value a = None) \<and>
        to_float (balance acct) = Inr fb \<and> to_float a = Inr fa \<longrightarrow> b = NFloat (fl_add fb fa)"
    by (auto simp: num_add_def float_op_def split: option.splits)
  have msg: "\<exists>s1 s2. format_2f a = Inr s1 \<and> two_decimals s1 \<and>
           format_2f b = Inr s2 \<and> two_decimals s2 \<and>
           fst (deposit acct (Num a) now) =
             Inr (''Deposited $'' @ s1 @ ''. New balance: $'' @ s2)" if "has_2f b"
  proof -
    from has_2f_format[OF that] obtain s2 where s2: "format_2f b = Inr s2" "two_decimals s2"
      by blast
    from g sum s1(1) s2(1) have "fst (deposit acct (Num a) now) =
             Inr (''Deposited $'' @ s1 @ ''. New balance: $'' @ s2)"
      by (simp add: deposit_def add_transaction_def)
    with s1 s2 show ?thesis by blast
  qed
  from sum st e1 e2 msg show ?thesis by blast
qed


theorem deposit_result_witness:
  "num_gt (NFloat (whole 50)) (NInt 0) \<and> has_2f (NFloat (whole 50)) \<and>
   has_2f (balance ex_account) \<and> has_2f (NFloat (whole 170)) \<and>
   deposit ex_account (Num (NFloat (whole 50))) ex_now =
     (Inr ''Deposited $50.00. New balance: $170.00'',
      ex_account\<lparr>balance := NFloat (whole 170),
        transactions := [\<lparr>timestamp = ex_now, type = ''Deposit'', amount = NFloat (whole 50)\<rparr>]\<rparr>) \<and>
   two_decimals ''50.00'' \<and> two_decimals ''170.00''"
proof -
  have h1: "num_gt (NFloat (whole 50)) (NInt 0)" by (simp add: num_gt_def num_lt_def)
  have h2: "has_2f (NFloat (whole 50))" by (simp add: has_2f_def whole_def)
  have h3: "has_2f (balance ex_account)" by (simp add: has_2f_def whole_def ex_account_def)
  have h4: "has_2f (NFloat (whole 170))" by (simp add: has_2f_def whole_def)
  have s: "num_add (balance ex_account) (NFloat (whole 50)) = Inr (NFloat (whole 170))"
    by (simp add: eval_account ex_account_def)
  have f1: "format_2f (NFloat (whole 50)) = Inr ''50.00''" by (simp add: eval_account)
  have f2: "format_2f (NFloat (whole 170)) = Inr ''170.00''" by (simp add: eval_account)
  from deposit_result[OF h1 h2 h3, of ex_now] s h4 f1 f2
  have "snd (deposit ex_account (Num (NFloat (whole 50))) ex_now) =
       ex_account\<lparr>balance := NFloat (whole 170),
         transactions := transactions ex_account @
           [\<lparr>timestamp = ex_now, type = ''Deposit'', amount = NFloat (whole 50)\<rparr>]\<rparr>"
    and "fst (deposit ex_account (Num (NFloat (whole 50))) ex_now) =
       Inr ''Deposited $50.00. New balance: $170.00''"
    and "two_decimals ''50.00''" and "two_decimals ''170.00''"
    by auto
  with h1 h2 h3 h4 show ?thesis
    by (cases "deposit ex_account (Num (NFloat (whole 50))) ex_now")
      (simp add: ex_account_def)
qed

text \<open>
  The claim as it stands fails on floats: on the balance \<open>9007199254740992.0\<close> a
  successful \<open>deposit(1.0)\<close> leaves the balance where it was.
\<close>

theorem deposit_exact_counterexample:
  "num_gt (NFloat (whole 1)) (NInt 0) \<and>
   wf_number (NFloat (whole 1)) \<and> wf_number (balance ex_big_account) \<and>
   deposit ex_big_account (Num (NFloat (whole 1))) ex_now =
     (Inr ''Deposited $1.00. New balance: $9007199254740992.00'',
      ex_big_account\<lparr>transactions :=
        [\<lparr>timestamp = ex_now, type = ''Deposit'', amount = NFloat (whole 1)\<rparr>]\<rparr>) \<and>
   balance (snd (deposit ex_big_account (Num (NFloat (whole 1))) ex_now)) =
     balance ex_big_account \<and>
   exact_value (balance ex_big_account) = Some 9007199254740992 \<and>
   exact_value (NFloat (whole 1)) = Some 1 \<and>
   exact_value (balance (snd (deposit ex_big_account (Num (NFloat (whole 1))) ex_now))) \<noteq>
     Some (9007199254740992 + 1)"
  by (simp add: eval_account ex_big_account_def)

section \<open>The transaction history\<close>

text \<open>
  C9, as amended. For an account with an empty log \<open>format_transaction_history\<close>
  returns \<open>No transactions yet.\<close> For an account with a non-empty log whose
  amounts are finite floats, or integers that convert to float, and whose timestamps
  lie in the years 1000 to 9999, it returns the block between two borders that lists
  every transaction in the order of the log, one line each: the timestamp as
  \<open>YYYY-MM-DD HH:MM:SS\<close>, the type at the left of a field of 10, and the amount
  with exactly two decimals at the right of a field of 8, with its minus sign when it
  is negative, as the amount of a withdrawal is.
\<close>

theorem format_transaction_history_result:
  "(transactions acct = [] \<longrightarrow> format_transaction_history acct = Inr ''No transactions yet.'') \<and>
   (transactions acct \<noteq> [] \<and>
    (\<forall>t \<in> set (transactions acct). has_2f (amount t) \<and> wf_datetime (timestamp t)) \<longrightarrow>
      format_transaction_history acct =
        Inr (border @ ''\<newline>Transaction History:\<newline>'' @ border @ ''\<newline>'' @
             concat (map entry (transactions acct)) @ border) \<and>
      (\<forall>t \<in> set (transactions acct).
         entry t =
           strftime (timestamp t) @ '' - '' @ ljust 10 (type t) @ '': $'' @
           rjust 8 (amount_text t) @ ''\<newline>'' \<and>
         timestamp_shape (strftime (timestamp t)) \<and>
         left_aligned 10 (type t) (ljust 10 (type t)) \<and>
         right_aligned 8 (amount_text t) (rjust 8 (amount_text t)) \<and>
         format_2f (amount t) = Inr (amount_text t) \<and>
         two_decimals (amount_text t) \<and>
         (num_lt (amount t) (NInt 0) \<longrightarrow> hd (amount_text t) = CHR ''-'')))"
proof (intro conjI impI ballI)
  assume "transactions acct = []"
  then show "format_transaction_history acct = Inr ''No transactions yet.''"
    by (simp add: format_transaction_history_def)
next
  assume a: "transactions acct \<noteq> [] \<and>
    (\<forall>t \<in> set (transactions acct). has_2f (amount t) \<and> wf_datetime (timestamp t))"
  then have "\<forall>t \<in> set (transactions acct). has_2f (amount t)" by blast
  from history_loop_entries[OF this] a
  show "format_transaction_history acct =
        Inr (border @ ''\<newline>Transaction History:\<newline>'' @ border @ ''\<newline>'' @
             concat (map entry (transactions acct)) @ border)"
    by (simp add: format_transaction_history_def)
next
  fix t
  assume a: "transactions acct \<noteq> [] \<and>
    (\<forall>t \<in> set (transactions acct). has_2f (amount t) \<and> wf_datetime (timestamp t))"
    and t: "t \<in> set (transactions acct)"
  then have h: "has_2f (amount t)" and w: "wf_datetime (timestamp t)" by blast+
  show "entry t =
           strftime (timestamp t) @ '' - '' @ ljust 10 (type t) @ '': $'' @
           rjust 8 (amount_text t) @ ''\<newline>''"
    by (simp add: entry_def)
  show "timestamp_shape (strftime (timestamp t))" using w by (rule strftime_shape)
  show "left_aligned 10 (type t) (ljust 10 (type t))" by (rule left_aligned_ljust)
  show "right_aligned 8 (amount_text t) (rjust 8 (amount_text t))" by (rule right_aligned_rjust)
  show "format_2f (amount t) = Inr (amount_text t)" using h by (rule amount_text_props)
  show "two_decimals (amount_text t)" using h by (rule amount_text_props)
  show "hd (amount_text t) = CHR ''-''" if "num_lt (amount t) (NInt 0)"
    using h that by (rule amount_text_props)
qed


lemmas eval_history = entry_def amount_text_def strftime_def pad2_def ljust_def rjust_def
  border_def ex_now_def replicate_numeral

theorem format_transaction_history_result_witness:
  "transactions ex_account = [] \<and>
   format_transaction_history ex_account = Inr ''No transactions yet.'' \<and>
   transactions ex_history_account \<noteq> [] \<and>
   list_all (\<lambda>t. has_2f (amount t) \<and> wf_datetime (timestamp t))
     (transactions ex_history_account) \<and>
   format_transaction_history ex_history_account =
     Inr (''------------------------------\<newline>'' @
          ''Transaction History:\<newline>'' @
          ''------------------------------\<newline>'' @
          ''2024-03-09 14:05:07 - Deposit   : $   50.00\<newline>'' @
          ''2024-03-09 14:05:07 - Withdrawal: $  -30.00\<newline>'' @
          ''------------------------------'') \<and>
   num_lt (NFloat (whole (- 30))) (NInt 0) \<and>
   amount_text \<lparr>timestamp = ex_now, type = ''Withdrawal'', amount = NFloat (whole (- 30))\<rparr> =
     ''-30.00''"
proof -
  have h1: "transactions ex_account = []" by (simp add: ex_account_def)
  have h2: "transactions ex_history_account \<noteq> []" by (simp add: ex_history_account_def)
  have h3: "\<forall>t \<in> set (transactions ex_history_account).
      has_2f (amount t) \<and> wf_datetime (timestamp t)"
    by (simp add: ex_history_account_def has_2f_def whole_def wf_datetime_def ex_now_def)
  have h4: "num_lt (NFloat (whole (- 30))) (NInt 0)" by (simp add: num_lt_def)
  have e: "map entry (transactions ex_history_account) =
      [''2024-03-09 14:05:07 - Deposit   : $   50.00\<newline>'',
       ''2024-03-09 14:05:07 - Withdrawal: $  -30.00\<newline>'']"
    by (simp add: ex_history_account_def eval_history eval_account)
  have t: "amount_text
      \<lparr>timestamp = ex_now, type = ''Withdrawal'', amount = NFloat (whole (- 30))\<rparr> =
     ''-30.00''"
    by (simp add: eval_history eval_account)
  from format_transaction_history_result[of ex_account] h1
  have a: "format_transaction_history ex_account = Inr ''No transactions yet.''" by simp
  from format_transaction_history_result[of ex_history_account] h2 h3
  have "format_transaction_history ex_history_account =
        Inr (border @ ''\<newline>Transaction History:\<newline>'' @ border @ ''\<newline>'' @
             concat (map entry (transactions ex_history_account)) @ border)"
    by blast
  then have b: "format_transaction_history ex_history_account =
     Inr (''------------------------------\<newline>'' @
          ''Transaction History:\<newline>'' @
          ''------------------------------\<newline>'' @
          ''2024-03-09 14:05:07 - Deposit   : $   50.00\<newline>'' @
          ''2024-03-09 14:05:07 - Withdrawal: $  -30.00\<newline>'' @
          ''------------------------------'')"
    unfolding e by (simp add: border_def replicate_numeral)
  from h3 have h3': "list_all (\<lambda>t. has_2f (amount t) \<and> wf_datetime (timestamp t))
     (transactions ex_history_account)"
    by (simp only: list_all_iff)
  from h1 a h2 h3' b h4 t show ?thesis by blast
qed

text \<open>
  The claim as it stands fails on amounts that \<open>.2f\<close> cannot print with digits.
  On \<open>BankAccount("Alice", 100)\<close> the call \<open>deposit(10 ** 400)\<close> (\<open>ex_huge\<close>) records its
  transaction and then raises OverflowError in the message; from then on
  \<open>format_transaction_history\<close> raises OverflowError itself. On
  \<open>BankAccount("Alice", 120.0)\<close> the call \<open>deposit(float("nan"))\<close> succeeds, and
  the history shows the amount as \<open>nan\<close>, without decimals.
\<close>

theorem format_transaction_history_counterexample:
  "deposit ex_int_account (Num (NInt ex_huge)) ex_now =
     (Inl (OverflowError ''int too large to convert to float''),
      ex_int_account\<lparr>balance := NInt (100 + ex_huge),
        transactions := [\<lparr>timestamp = ex_now, type = ''Deposit'', amount = NInt ex_huge\<rparr>]\<rparr>) \<and>
   transactions (snd (deposit ex_int_account (Num (NInt ex_huge)) ex_now)) \<noteq> [] \<and>
   format_transaction_history (snd (deposit ex_int_account (Num (NInt ex_huge)) ex_now)) =
     Inl (OverflowError ''int too large to convert to float'') \<and>
   fst (deposit ex_account (Num (NFloat NaN)) ex_now) =
     Inr ''Deposited $nan. New balance: $nan'' \<and>
   format_transaction_history (snd (deposit ex_account (Num (NFloat NaN)) ex_now)) =
     Inr (''------------------------------\<newline>'' @
          ''Transaction History:\<newline>'' @
          ''------------------------------\<newline>'' @
          ''2024-03-09 14:05:07 - Deposit   : $     nan\<newline>'' @
          ''------------------------------'') \<and>
   \<not> two_decimals ''nan''"
proof -
  have big: "(2::int) ^ 1024 \<le> \<bar>ex_huge\<bar>" by (simp add: ex_huge_def)
  have pos: "\<not> ex_huge \<le> 0" by (simp add: ex_huge_def)
  have f: "format_2f (NInt ex_huge) = Inl (OverflowError ''int too large to convert to float'')"
    by (simp add: format_2f_def int_to_float_overflow[OF big])
  have d: "deposit ex_int_account (Num (NInt ex_huge)) ex_now =
     (Inl (OverflowError ''int too large to convert to float''),
      ex_int_account\<lparr>balance := NInt (100 + ex_huge),
        transactions := [\<lparr>timestamp = ex_now, type = ''Deposit'', amount = NInt ex_huge\<rparr>]\<rparr>)"
    by (simp add: deposit_def num_le_def num_add_def add_transaction_def f pos
        ex_int_account_def)
  have h: "format_transaction_history (snd (deposit ex_int_account (Num (NInt ex_huge)) ex_now)) =
     Inl (OverflowError ''int too large to convert to float'')"
    unfolding d by (simp add: format_transaction_history_def history_line_def f)
  have n: "deposit ex_account (Num (NFloat NaN)) ex_now =
     (Inr ''Deposited $nan. New balance: $nan'',
      ex_account\<lparr>balance := NFloat NaN,
        transactions := [\<lparr>timestamp = ex_now, type = ''Deposit'', amount = NFloat NaN\<rparr>]\<rparr>)"
    by (simp add: deposit_def num_le_def num_add_def float_op_def format_2f_def
        add_transaction_def ex_account_def whole_def)
  have hn: "format_transaction_history (snd (deposit ex_account (Num (NFloat NaN)) ex_now)) =
     Inr (''------------------------------\<newline>'' @
          ''Transaction History:\<newline>'' @
          ''------------------------------\<newline>'' @
          ''2024-03-09 14:05:07 - Deposit   : $     nan\<newline>'' @
          ''------------------------------'')"
    unfolding n
    by (simp add: format_transaction_history_def history_line_def format_2f_def eval_history
        digits.simps digit_def)
  have t: "\<not> two_decimals ''nan''" by (simp add: two_decimals_def)
  from d h n hn t show ?thesis by simp
qed

end
